theory Spec2Isabelle
  imports Main "HOL-Library.AList" "HOL-Library.Sublist"
begin

section \<open>Values exchanged with the Koji hub\<close>

text \<open>
  The two modules \<^verbatim>\<open>library/koji_tag.py\<close> and \<^verbatim>\<open>library/koji_cg.py\<close> talk to a Koji
  hub through a client session. Python dictionaries with a fixed set of keys become
  records; a dictionary with arbitrary keys (the \<^verbatim>\<open>extra\<close> mapping, the permission
  cache) is an association list in insertion order, read with \<open>map_of\<close>.
\<close>

datatype extra_val = EInt int | EStr string | EBool bool

text \<open>
  The keyword arguments \<^verbatim>\<open>run_module\<close> passes to \<^verbatim>\<open>ensure_tag\<close> as \<^verbatim>\<open>**kwargs\<close>:
  \<^verbatim>\<open>arches, perm, locked, maven_support, maven_include_all, extra\<close>. The hub's answer to
  \<^verbatim>\<open>getTag\<close> carries the same keys and the tag's \<^verbatim>\<open>id\<close>.
\<close>

record tag_attrs =
  arches :: "string option"
  perm :: "string option"
  locked :: bool
  maven_support :: bool
  maven_include_all :: bool
  extra :: "(string \<times> extra_val) list"

record taginfo = tag_attrs +
  tag_id :: int

text \<open>
  \<^verbatim>\<open>createTag\<close> receives the keyword arguments after \<^verbatim>\<open>kwargs['perm']\<close> has been
  overwritten by the permission's id (or left as it was when it is \<^verbatim>\<open>None\<close> or empty).
\<close>

datatype perm_val = PermLabel string | PermId int

record create_kwargs =
  c_arches :: "string option"
  c_perm :: "perm_val option"
  c_locked :: bool
  c_maven_support :: bool
  c_maven_include_all :: bool
  c_extra :: "(string \<times> extra_val) list"

text \<open>
  The \<^verbatim>\<open>edits\<close> dictionary of \<^verbatim>\<open>ensure_tag\<close>: each key is present (\<open>Some\<close>) or not;
  a present \<^verbatim>\<open>arches\<close> or \<^verbatim>\<open>perm\<close> may itself be \<^verbatim>\<open>None\<close>.
\<close>

record edits =
  e_arches :: "string option option"
  e_perm :: "string option option"
  e_locked :: "bool option"
  e_maven_support :: "bool option"
  e_maven_include_all :: "bool option"
  e_extra :: "(string \<times> extra_val) list option"
  remove_extra :: "string list option"

text \<open>One declared inheritance entry (keys \<^verbatim>\<open>parent\<close>, \<^verbatim>\<open>priority\<close>).\<close>

record inh_decl =
  parent :: string
  inh_priority :: int

text \<open>One rule of \<^verbatim>\<open>getInheritanceData\<close> / \<^verbatim>\<open>setInheritanceData\<close> (key \<^verbatim>\<open>name\<close> is
  \<open>rule_name\<close> here).\<close>

record rule =
  child_id :: int
  intransitive :: bool
  maxdepth :: "int option"
  rule_name :: string
  noconfig :: bool
  parent_id :: int
  pkg_filter :: string
  priority :: int

text \<open>One declared external repo (keys \<^verbatim>\<open>repo\<close>, \<^verbatim>\<open>priority\<close>) and one binding as
  \<^verbatim>\<open>getTagExternalRepos\<close> returns it (keys \<^verbatim>\<open>external_repo_name\<close>, \<^verbatim>\<open>priority\<close>).\<close>

record repo_decl =
  repo :: string
  repo_priority :: int

record ext_repo =
  external_repo_name :: string
  ext_priority :: int

text \<open>One entry of \<^verbatim>\<open>listPackages\<close> and one entry of \<^verbatim>\<open>getAllPerms\<close>.\<close>

record pkg =
  package_name :: string
  owner_name :: string

record perm_entry =
  perm_name :: string
  perm_id :: int

text \<open>
  A line of \<^verbatim>\<open>result['stdout_lines']\<close> is kept as its format and the values
  formatted into it, in the order of the source's format strings.
\<close>

datatype msg =
    WouldCreateTag string
  | CreatedTagId int
  | EditsStr edits
  | InheritanceIs "inh_decl list"
  | SetRepoPriority string int
  | AddExternalRepo string string
  | RemovedRepo string string
  | AddedPkg string
  | SetOwner string string
  | RemovePkg string
  | DeletedTag int

record result =
  changed :: bool
  stdout_lines :: "msg list"

text \<open>The dictionary \<^verbatim>\<open>delete_tag\<close> returns has the key \<^verbatim>\<open>stdout\<close>, one string that is
  empty (\<open>None\<close>) or one message, in the place of \<^verbatim>\<open>stdout_lines\<close>.\<close>

record delete_result =
  d_changed :: bool
  d_stdout :: "msg option"

text \<open>Exceptions: those the modules raise themselves, and those the session raises
  (\<^verbatim>\<open>koji.GenericError\<close> and its subclasses, or anything else).\<close>

datatype exn =
    ValueError string
  | KeyError string
  | UnboundLocalError string
  | GenericError string
  | OtherError string
  | ModuleFail string
  | AnsibleError string exn

section \<open>The session: a hub, and the calls sent to it\<close>

datatype call =
    Login
  | GetTag string
  | GetAllPerms
  | CreateTag string create_kwargs
  | EditTag2 string edits
  | GetInheritanceData string
  | SetInheritanceData string "rule list"
  | GetTagExternalRepos string
  | EditTagExternalRepo string string int
  | AddExternalRepoToTag string string int
  | RemoveExternalRepoFromTag string string
  | ListPackages int
  | PackageListAdd string string string
  | PackageListSetOwner string string string
  | PackageListRemove string string string
  | DeleteTag string
  | GrantCGAccess string string
  | RevokeCGAccess string string

text \<open>The calls that change something on the hub (the write operations of the
  Resource Client); fetches and the login are not among them.\<close>

fun mutating :: "call \<Rightarrow> bool" where
  "mutating Login = False"
| "mutating (GetTag _) = False"
| "mutating GetAllPerms = False"
| "mutating (GetInheritanceData _) = False"
| "mutating (GetTagExternalRepos _) = False"
| "mutating (ListPackages _) = False"
| "mutating _ = True"

text \<open>
  The state a run works on: what the hub stores, which calls the hub rejects
  (\<open>hub_refuses\<close>: lack of privilege, an unknown user or repo, ...), every call sent so
  far in order (\<open>trace\<close>), and two things that belong to the Python process: the
  module-level variable \<^verbatim>\<open>perm_cache\<close> of \<^verbatim>\<open>koji_tag.py\<close>, and \<open>set_slot\<close>, which decides
  in which order this process iterates over a set of strings (see \<open>set_minus\<close> below).
\<close>

record world =
  hub_tags :: "string \<Rightarrow> taginfo option"
  hub_next_id :: int
  hub_inheritance :: "string \<Rightarrow> rule list"
  hub_external_repos :: "string \<Rightarrow> ext_repo list"
  hub_packages :: "int \<Rightarrow> pkg list"
  hub_perms :: "perm_entry list"
  hub_cg_access :: "(string \<times> string) list"
  hub_refuses :: "call \<Rightarrow> exn option"
  trace :: "call list"
  perm_cache :: "(string \<times> int) list"
  set_slot :: "string list \<Rightarrow> string \<Rightarrow> nat"

text \<open>A computation returns a value or raises, and leaves a world behind either way.\<close>

type_synonym 'a koji = "world \<Rightarrow> (exn + 'a) \<times> world"

definition kreturn :: "'a \<Rightarrow> 'a koji" where
  "kreturn x w = (Inr x, w)"

definition kraise :: "exn \<Rightarrow> 'a koji" where
  "kraise e w = (Inl e, w)"

definition kbind :: "'a koji \<Rightarrow> ('a \<Rightarrow> 'b koji) \<Rightarrow> 'b koji" where
  "kbind m f w = (case m w of (Inl e, w') \<Rightarrow> (Inl e, w') | (Inr x, w') \<Rightarrow> f x w')"

text \<open>\<^verbatim>\<open>try: m except Exception as e: h(e)\<close>\<close>

definition kcatch :: "'a koji \<Rightarrow> (exn \<Rightarrow> 'a koji) \<Rightarrow> 'a koji" where
  "kcatch m h w = (case m w of (Inl e, w') \<Rightarrow> h e w' | (Inr x, w') \<Rightarrow> (Inr x, w'))"

text \<open>\<^verbatim>\<open>for x in xs: acc = body(x, acc)\<close>; an exception in the body ends the loop.\<close>

fun kfold :: "('a \<Rightarrow> 'b \<Rightarrow> 'b koji) \<Rightarrow> 'a list \<Rightarrow> 'b \<Rightarrow> 'b koji" where
  "kfold body [] acc w = (Inr acc, w)"
| "kfold body (x # xs) acc w =
     (case body x acc w of
        (Inl e, w') \<Rightarrow> (Inl e, w')
      | (Inr acc', w') \<Rightarrow> kfold body xs acc' w')"

text \<open>The calls a computation sends when it is started in \<open>w\<close>.\<close>

definition issued :: "'a koji \<Rightarrow> world \<Rightarrow> call list" where
  "issued m w = drop (length (trace w)) (trace (snd (m w)))"

definition issue :: "call \<Rightarrow> world \<Rightarrow> world" where
  "issue c w = w\<lparr>trace := trace w @ [c]\<rparr>"

subsection \<open>The hub's operations\<close>

text \<open>
  Modelled from the spec: the Resource Client, that is the Koji client session that
  \<^verbatim>\<open>common_koji.get_session\<close> returns and \<^verbatim>\<open>common_koji.ensure_logged_in\<close> logs in
  (\<^verbatim>\<open>common_koji\<close> and the hub are not among the sources). Section 6 of the spec lists
  the operations; each is a single atomic call. A fetch answers from the stored state.
  A write or a login is sent, and either the hub rejects it (the exception of
  \<open>hub_refuses\<close>) or it takes effect on the one store it addresses: an edit overwrites
  the named attributes, merges \<^verbatim>\<open>extra\<close> and deletes the \<^verbatim>\<open>remove_extra\<close> keys;
  set-inheritance replaces the tag's rule list (\<^verbatim>\<open>clear=True\<close>); add appends a binding
  or a package entry, edit and set-owner rewrite the entries of that name, remove
  deletes them.
\<close>

definition hub_call :: "call \<Rightarrow> 'a koji \<Rightarrow> 'a koji" where
  "hub_call c act w =
     (case hub_refuses w c of
        Some e \<Rightarrow> (Inl e, issue c w)
      | None \<Rightarrow> act (issue c w))"

definition on_tag :: "string \<Rightarrow> (taginfo \<Rightarrow> world \<Rightarrow> world) \<Rightarrow> unit koji" where
  "on_tag tag upd w =
     (case hub_tags w tag of
        None \<Rightarrow> (Inl (GenericError (''No such tag: '' @ tag)), w)
      | Some ti \<Rightarrow> (Inr (), upd ti w))"

definition ensure_logged_in :: "unit koji" where
  "ensure_logged_in = hub_call Login (kreturn ())"

definition getTag :: "string \<Rightarrow> taginfo option koji" where
  "getTag tag w = (Inr (hub_tags w tag), issue (GetTag tag) w)"

definition getAllPerms :: "perm_entry list koji" where
  "getAllPerms w = (Inr (hub_perms w), issue GetAllPerms w)"

definition getInheritanceData :: "string \<Rightarrow> rule list koji" where
  "getInheritanceData tag w = (Inr (hub_inheritance w tag), issue (GetInheritanceData tag) w)"

definition getTagExternalRepos :: "string \<Rightarrow> ext_repo list koji" where
  "getTagExternalRepos tag w =
     (Inr (hub_external_repos w tag), issue (GetTagExternalRepos tag) w)"

definition listPackages :: "int \<Rightarrow> pkg list koji" where
  "listPackages tid w = (Inr (hub_packages w tid), issue (ListPackages tid) w)"

text \<open>The label under which the catalog lists a permission id.\<close>

definition perm_label :: "perm_entry list \<Rightarrow> int \<Rightarrow> string option" where
  "perm_label ps i = map_option perm_name (find (\<lambda>p. perm_id p = i) ps)"

definition new_tag :: "perm_entry list \<Rightarrow> int \<Rightarrow> create_kwargs \<Rightarrow> taginfo" where
  "new_tag ps i a =
     \<lparr>arches = c_arches a,
      perm = (case c_perm a of
                None \<Rightarrow> None
              | Some (PermLabel l) \<Rightarrow> Some l
              | Some (PermId p) \<Rightarrow> perm_label ps p),
      locked = c_locked a,
      maven_support = c_maven_support a,
      maven_include_all = c_maven_include_all a,
      extra = c_extra a,
      tag_id = i\<rparr>"

definition createTag :: "string \<Rightarrow> create_kwargs \<Rightarrow> int koji" where
  "createTag tag a =
     hub_call (CreateTag tag a)
       (\<lambda>w. case hub_tags w tag of
               Some _ \<Rightarrow> (Inl (GenericError (''tag already exists: '' @ tag)), w)
             | None \<Rightarrow>
                 (Inr (hub_next_id w),
                  w\<lparr>hub_tags := (hub_tags w)(tag \<mapsto> new_tag (hub_perms w) (hub_next_id w) a),
                    hub_next_id := hub_next_id w + 1\<rparr>))"

definition merge_extra ::
  "(string \<times> extra_val) list \<Rightarrow> (string \<times> extra_val) list \<Rightarrow> (string \<times> extra_val) list" where
  "merge_extra old new = fold (\<lambda>(k, v). AList.update k v) new old"

definition apply_edits :: "edits \<Rightarrow> taginfo \<Rightarrow> taginfo" where
  "apply_edits e ti =
     ti\<lparr>arches := (case e_arches e of None \<Rightarrow> arches ti | Some v \<Rightarrow> v),
        perm := (case e_perm e of None \<Rightarrow> perm ti | Some v \<Rightarrow> v),
        locked := (case e_locked e of None \<Rightarrow> locked ti | Some v \<Rightarrow> v),
        maven_support := (case e_maven_support e of None \<Rightarrow> maven_support ti | Some v \<Rightarrow> v),
        maven_include_all :=
          (case e_maven_include_all e of None \<Rightarrow> maven_include_all ti | Some v \<Rightarrow> v),
        extra :=
          (let merged = (case e_extra e of None \<Rightarrow> extra ti | Some new \<Rightarrow> merge_extra (extra ti) new)
           in case remove_extra e of
                None \<Rightarrow> merged
              | Some ks \<Rightarrow> filter (\<lambda>(k, v). k \<notin> set ks) merged)\<rparr>"

definition editTag2 :: "string \<Rightarrow> edits \<Rightarrow> unit koji" where
  "editTag2 tag e =
     hub_call (EditTag2 tag e)
       (on_tag tag (\<lambda>ti w. w\<lparr>hub_tags := (hub_tags w)(tag \<mapsto> apply_edits e ti)\<rparr>))"

definition setInheritanceData :: "string \<Rightarrow> rule list \<Rightarrow> unit koji" where
  "setInheritanceData tag rules =
     hub_call (SetInheritanceData tag rules)
       (on_tag tag (\<lambda>ti w. w\<lparr>hub_inheritance := (hub_inheritance w)(tag := rules)\<rparr>))"

definition editTagExternalRepo :: "string \<Rightarrow> string \<Rightarrow> int \<Rightarrow> unit koji" where
  "editTagExternalRepo tag r p =
     hub_call (EditTagExternalRepo tag r p)
       (on_tag tag (\<lambda>ti w. w\<lparr>hub_external_repos := (hub_external_repos w)
          (tag := map (\<lambda>b. if external_repo_name b = r then b\<lparr>ext_priority := p\<rparr> else b)
                    (hub_external_repos w tag))\<rparr>))"

definition addExternalRepoToTag :: "string \<Rightarrow> string \<Rightarrow> int \<Rightarrow> unit koji" where
  "addExternalRepoToTag tag r p =
     hub_call (AddExternalRepoToTag tag r p)
       (on_tag tag (\<lambda>ti w. w\<lparr>hub_external_repos := (hub_external_repos w)
          (tag := hub_external_repos w tag @ [\<lparr>external_repo_name = r, ext_priority = p\<rparr>])\<rparr>))"

definition removeExternalRepoFromTag :: "string \<Rightarrow> string \<Rightarrow> unit koji" where
  "removeExternalRepoFromTag tag r =
     hub_call (RemoveExternalRepoFromTag tag r)
       (on_tag tag (\<lambda>ti w. w\<lparr>hub_external_repos := (hub_external_repos w)
          (tag := filter (\<lambda>b. external_repo_name b \<noteq> r) (hub_external_repos w tag))\<rparr>))"

definition packageListAdd :: "string \<Rightarrow> string \<Rightarrow> string \<Rightarrow> unit koji" where
  "packageListAdd tag p ow =
     hub_call (PackageListAdd tag p ow)
       (on_tag tag (\<lambda>ti w. w\<lparr>hub_packages := (hub_packages w)
          (tag_id ti := hub_packages w (tag_id ti) @ [\<lparr>package_name = p, owner_name = ow\<rparr>])\<rparr>))"

definition packageListSetOwner :: "string \<Rightarrow> string \<Rightarrow> string \<Rightarrow> unit koji" where
  "packageListSetOwner tag p ow =
     hub_call (PackageListSetOwner tag p ow)
       (on_tag tag (\<lambda>ti w. w\<lparr>hub_packages := (hub_packages w)
          (tag_id ti := map (\<lambda>e. if package_name e = p then e\<lparr>owner_name := ow\<rparr> else e)
                          (hub_packages w (tag_id ti)))\<rparr>))"

definition packageListRemove :: "string \<Rightarrow> string \<Rightarrow> string \<Rightarrow> unit koji" where
  "packageListRemove tag p ow =
     hub_call (PackageListRemove tag p ow)
       (on_tag tag (\<lambda>ti w. w\<lparr>hub_packages := (hub_packages w)
          (tag_id ti := filter (\<lambda>e. package_name e \<noteq> p) (hub_packages w (tag_id ti)))\<rparr>))"

definition deleteTag :: "string \<Rightarrow> unit koji" where
  "deleteTag tag =
     hub_call (DeleteTag tag)
       (on_tag tag (\<lambda>ti w. w\<lparr>hub_tags := (hub_tags w)(tag := None)\<rparr>))"

definition already_has_access :: string where
  "already_has_access = ''User already has access to content generator''"

definition grantCGAccess :: "string \<Rightarrow> string \<Rightarrow> unit koji" where
  "grantCGAccess user cg =
     hub_call (GrantCGAccess user cg)
       (\<lambda>w. if (user, cg) \<in> set (hub_cg_access w)
             then (Inl (GenericError (already_has_access @ '' '' @ cg)), w)
             else (Inr (), w\<lparr>hub_cg_access := hub_cg_access w @ [(user, cg)]\<rparr>))"

definition revokeCGAccess :: "string \<Rightarrow> string \<Rightarrow> unit koji" where
  "revokeCGAccess user cg =
     hub_call (RevokeCGAccess user cg)
       (\<lambda>w. (Inr (), w\<lparr>hub_cg_access := filter (\<lambda>a. a \<noteq> (user, cg)) (hub_cg_access w)\<rparr>))"

section \<open>Python helpers\<close>

text \<open>
  \<^verbatim>\<open>a == b\<close> on the values of \<^verbatim>\<open>extra\<close>. \<^verbatim>\<open>bool\<close> is a subclass of \<^verbatim>\<open>int\<close> in Python:
  \<^verbatim>\<open>True == 1\<close> and \<^verbatim>\<open>False == 0\<close> hold, and no string equals a number.
\<close>

fun py_eq :: "extra_val \<Rightarrow> extra_val \<Rightarrow> bool" where
  "py_eq (EInt i) (EBool b) = (i = (if b then 1 else 0))"
| "py_eq (EBool b) (EInt i) = (i = (if b then 1 else 0))"
| "py_eq a b = (a = b)"

text \<open>Equality of two dictionaries (\<^verbatim>\<open>a == b\<close>): the same keys, with values that are
  equal in the sense of \<^verbatim>\<open>==\<close>.\<close>

definition dict_eq :: "('k \<times> extra_val) list \<Rightarrow> ('k \<times> extra_val) list \<Rightarrow> bool" where
  "dict_eq a b =
     list_all (\<lambda>k. rel_option py_eq (map_of a k) (map_of b k)) (map fst a @ map fst b)"

text \<open>\<^verbatim>\<open>dict(pairs)\<close>: a later pair overwrites an earlier one with the same key.\<close>

definition py_dict :: "('k \<times> 'v) list \<Rightarrow> ('k \<times> 'v) list" where
  "py_dict pairs = fold (\<lambda>(k, v). AList.update k v) pairs []"

text \<open>\<^verbatim>\<open>needle in s\<close> on strings.\<close>

fun contains :: "string \<Rightarrow> string \<Rightarrow> bool" where
  "contains needle [] = (needle = [])"
| "contains needle (c # cs) = (prefix needle (c # cs) \<or> contains needle cs)"

text \<open>
  \<^verbatim>\<open>set(xs) - set(ys)\<close>, listed in the order in which a \<^verbatim>\<open>for\<close> loop visits it. Python
  does not fix that order: a set is visited slot by slot of its hash table, and the slot
  of an element depends on the hash seed of the process and on the other elements of the
  set. \<open>slot\<close> is the \<open>set_slot\<close> of the world: given the elements of the set it assigns
  every element its slot, and the elements are visited by ascending slot. Every order of
  the elements is the order of some \<open>slot\<close>, and two processes may differ in theirs.
\<close>

definition set_minus :: "('a list \<Rightarrow> 'a \<Rightarrow> nat) \<Rightarrow> 'a list \<Rightarrow> 'a list \<Rightarrow> 'a list" where
  "set_minus slot xs ys =
     (let elements = filter (\<lambda>x. x \<notin> set ys) (remdups xs)
      in sort_key (slot elements) elements)"

text \<open>The same inside a run: the process's \<open>set_slot\<close> is read from the world.\<close>

definition set_difference :: "string list \<Rightarrow> string list \<Rightarrow> string list koji" where
  "set_difference xs ys w = (Inr (set_minus (set_slot w) xs ys), w)"

definition quoted :: "string \<Rightarrow> string" where
  "quoted s = CHR 0x27 # s @ [CHR 0x27]"

definition add_line :: "msg \<Rightarrow> result \<Rightarrow> result" where
  "add_line m result = result\<lparr>changed := True, stdout_lines := stdout_lines result @ [m]\<rparr>"

section \<open>\<^verbatim>\<open>koji_tag.py\<close>\<close>

subsection \<open>\<^verbatim>\<open>get_perm_id\<close> (lines 118-127)\<close>

definition get_perm_id :: "string \<Rightarrow> int koji" where
  "get_perm_id label =
     kbind (\<lambda>w. if perm_cache w = []
                then kbind getAllPerms
                       (\<lambda>ps w'. (Inr (),
                          w'\<lparr>perm_cache := py_dict (map (\<lambda>p. (perm_name p, perm_id p)) ps)\<rparr>)) w
                else (Inr (), w))
       (\<lambda>_ w. case map_of (perm_cache w) label of
                 None \<Rightarrow> (Inl (KeyError label), w)
               | Some i \<Rightarrow> (Inr i, w))"

subsection \<open>\<^verbatim>\<open>ensure_external_repos\<close> (lines 130-174)\<close>

text \<open>\<^verbatim>\<open>current = {repo['external_repo_name']: repo for repo in current_repo_list}\<close>\<close>

definition index_repos :: "ext_repo list \<Rightarrow> string \<Rightarrow> ext_repo option" where
  "index_repos bs = map_of (rev (map (\<lambda>b. (external_repo_name b, b)) bs))"

text \<open>The body of the loop over the declared repos (lines 142-162).\<close>

definition repo_step ::
  "string \<Rightarrow> bool \<Rightarrow> (string \<Rightarrow> ext_repo option) \<Rightarrow> repo_decl \<Rightarrow> result \<Rightarrow> result koji" where
  "repo_step tag_name check_mode current r result =
     (case current (repo r) of
        Some cur \<Rightarrow>
          if repo_priority r = ext_priority cur then kreturn result
          else
            (let result' = add_line (SetRepoPriority (repo r) (repo_priority r)) result in
             kbind (if \<not> check_mode
                    then kbind ensure_logged_in
                           (\<lambda>_. editTagExternalRepo tag_name (repo r) (repo_priority r))
                    else kreturn ())
               (\<lambda>_. kreturn result'))
      | None \<Rightarrow>
          (let result' = add_line (AddExternalRepo (repo r) tag_name) result in
           kbind (if \<not> check_mode
                  then kbind ensure_logged_in
                         (\<lambda>_. addExternalRepoToTag tag_name (repo r) (repo_priority r))
                  else kreturn ())
             (\<lambda>_. kreturn result')))"

text \<open>The body of the loop over \<^verbatim>\<open>repos_to_remove\<close> (lines 167-173).\<close>

definition repo_remove_step :: "string \<Rightarrow> bool \<Rightarrow> string \<Rightarrow> result \<Rightarrow> result koji" where
  "repo_remove_step tag_name check_mode repo_name result =
     (let result' = add_line (RemovedRepo repo_name tag_name) result in
      kbind (if \<not> check_mode
             then kbind ensure_logged_in (\<lambda>_. removeExternalRepoFromTag tag_name repo_name)
             else kreturn ())
        (\<lambda>_. kreturn result'))"

definition ensure_external_repos :: "string \<Rightarrow> bool \<Rightarrow> repo_decl list \<Rightarrow> result koji" where
  "ensure_external_repos tag_name check_mode repos =
     kbind (getTagExternalRepos tag_name) (\<lambda>current_repo_list.
       let current = index_repos current_repo_list in
       kbind (kfold (repo_step tag_name check_mode current) repos
                \<lparr>changed = False, stdout_lines = []\<rparr>) (\<lambda>result.
         let repo_names = map repo repos;
             current_names = map external_repo_name current_repo_list
         in kbind (set_difference current_names repo_names) (\<lambda>repos_to_remove.
              kfold (repo_remove_step tag_name check_mode) repos_to_remove result)))"

subsection \<open>\<^verbatim>\<open>ensure_tag\<close> (lines 177-298)\<close>

text \<open>The \<^verbatim>\<open>edits\<close> of lines 210-221, for a tag that exists.\<close>

definition no_edits :: edits where
  "no_edits = \<lparr>e_arches = None, e_perm = None, e_locked = None, e_maven_support = None,
     e_maven_include_all = None, e_extra = None, remove_extra = None\<rparr>"

definition tag_edits :: "taginfo \<Rightarrow> tag_attrs \<Rightarrow> edits" where
  "tag_edits ti kwargs =
     \<lparr>e_arches = (if arches ti \<noteq> arches kwargs then Some (arches kwargs) else None),
      e_perm = (if perm ti \<noteq> perm kwargs then Some (perm kwargs) else None),
      e_locked = (if locked ti \<noteq> locked kwargs then Some (locked kwargs) else None),
      e_maven_support =
        (if maven_support ti \<noteq> maven_support kwargs then Some (maven_support kwargs) else None),
      e_maven_include_all =
        (if maven_include_all ti \<noteq> maven_include_all kwargs
         then Some (maven_include_all kwargs) else None),
      e_extra = (if \<not> dict_eq (extra ti) (extra kwargs) then Some (extra kwargs) else None),
      remove_extra =
        (let ks = filter (\<lambda>k. k \<notin> fst ` set (extra kwargs)) (map fst (extra ti))
         in if ks = [] then None else Some ks)\<rparr>"

text \<open>Lines 209-227: the tag exists; send the edits, if any.\<close>

definition ensure_tag_params ::
  "string \<Rightarrow> bool \<Rightarrow> taginfo \<Rightarrow> tag_attrs \<Rightarrow> result \<Rightarrow> result koji" where
  "ensure_tag_params tag check_mode ti kwargs result =
     (let es = tag_edits ti kwargs in
      if es \<noteq> no_edits
      then
        (let result' = add_line (EditsStr es) result in
         kbind (if \<not> check_mode
                then kbind ensure_logged_in (\<lambda>_. editTag2 tag es)
                else kreturn ())
           (\<lambda>_. kreturn result'))
      else kreturn result)"

text \<open>Lines 201-207: the tag is missing and this is not check mode.\<close>

definition create_tag :: "string \<Rightarrow> tag_attrs \<Rightarrow> result \<Rightarrow> (int \<times> result) koji" where
  "create_tag tag kwargs result =
     kbind ensure_logged_in (\<lambda>_.
       kbind (case perm kwargs of
                Some l \<Rightarrow>
                  if l \<noteq> [] then kbind (get_perm_id l) (\<lambda>i. kreturn (Some (PermId i)))
                  else kreturn (Some (PermLabel l))
              | None \<Rightarrow> kreturn None) (\<lambda>p.
         kbind (createTag tag
                  \<lparr>c_arches = arches kwargs, c_perm = p, c_locked = locked kwargs,
                   c_maven_support = maven_support kwargs,
                   c_maven_include_all = maven_include_all kwargs,
                   c_extra = extra kwargs\<rparr>) (\<lambda>new_id.
           kreturn (new_id, add_line (CreatedTagId new_id) result))))"

text \<open>Lines 229-252: the inheritance rules. \<open>inh_step\<close> is the body of the loop.\<close>

definition parent_not_found :: "string \<Rightarrow> exn" where
  "parent_not_found parent_name = ValueError (''parent tag '' @ quoted parent_name @ '' not found'')"

definition inh_step :: "int \<Rightarrow> inh_decl \<Rightarrow> rule list \<Rightarrow> rule list koji" where
  "inh_step tid r rules =
     kbind (getTag (parent r)) (\<lambda>parent_taginfo.
       case parent_taginfo of
         None \<Rightarrow> kraise (parent_not_found (parent r))
       | Some pt \<Rightarrow>
           kreturn (rules @
             [\<lparr>child_id = tid, intransitive = False, maxdepth = None, rule_name = parent r,
               noconfig = False, parent_id = tag_id pt, pkg_filter = [],
               priority = inh_priority r\<rparr>]))"

definition ensure_inheritance ::
  "string \<Rightarrow> bool \<Rightarrow> int \<Rightarrow> inh_decl list \<Rightarrow> result \<Rightarrow> result koji" where
  "ensure_inheritance tag check_mode tid inheritance result =
     kbind (kfold (inh_step tid) inheritance []) (\<lambda>rules.
       kbind (getInheritanceData tag) (\<lambda>current_inheritance.
         if current_inheritance \<noteq> rules
         then
           (let result' = add_line (InheritanceIs inheritance) result in
            kbind (if \<not> check_mode
                   then kbind ensure_logged_in (\<lambda>_. setInheritanceData tag rules)
                   else kreturn ())
              (\<lambda>_. kreturn result'))
         else kreturn result))"

text \<open>Lines 254-259: the external repos, unless the parameter is \<^verbatim>\<open>None\<close>.\<close>

definition ensure_tag_repos ::
  "string \<Rightarrow> bool \<Rightarrow> repo_decl list option \<Rightarrow> result \<Rightarrow> result koji" where
  "ensure_tag_repos tag check_mode external_repos result =
     (case external_repos of
        None \<Rightarrow> kreturn result
      | Some repos \<Rightarrow>
          kbind (ensure_external_repos tag check_mode repos) (\<lambda>repos_result.
            kreturn \<lparr>changed = (if changed repos_result then True else changed result),
                     stdout_lines = stdout_lines result @ stdout_lines repos_result\<rparr>))"

text \<open>
  Lines 261-297: the package list, unless the mapping is empty. \<open>pkg_step\<close> is the
  body of the inner loop (lines 274-289), \<open>owner_step\<close> that of the loop over
  \<^verbatim>\<open>packages.items()\<close>, \<open>pkg_remove_step\<close> that of the loop over \<^verbatim>\<open>delete_names\<close>.
  The variable \<^verbatim>\<open>owner\<close> is carried through the loops as Python does: it is unbound
  (\<open>None\<close>) before any loop has assigned it, the loop of lines 269-272 and the loop of
  line 273 both assign it, and line 297 reads whatever it holds. The names bound inside
  the comprehension of line 291 stay local to it.
\<close>

definition pkg_step ::
  "string \<Rightarrow> bool \<Rightarrow> string set \<Rightarrow> (string \<Rightarrow> string set) \<Rightarrow> string \<Rightarrow> string \<Rightarrow> result
     \<Rightarrow> result koji" where
  "pkg_step tag check_mode current_names current_owned ow package result =
     (if package \<notin> current_names
      then kbind (if \<not> check_mode then packageListAdd tag package ow else kreturn ())
             (\<lambda>_. kreturn (add_line (AddedPkg package) result))
      else if package \<notin> current_owned ow
      then kbind (if \<not> check_mode then packageListSetOwner tag package ow else kreturn ())
             (\<lambda>_. kreturn (add_line (SetOwner package ow) result))
      else kreturn result)"

definition owner_step ::
  "string \<Rightarrow> bool \<Rightarrow> string set \<Rightarrow> (string \<Rightarrow> string set) \<Rightarrow> string \<times> string list
     \<Rightarrow> result \<times> string option \<Rightarrow> (result \<times> string option) koji" where
  "owner_step tag check_mode current_names current_owned item acc =
     kbind (kfold (pkg_step tag check_mode current_names current_owned (fst item))
              (snd item) (fst acc))
       (\<lambda>result'. kreturn (result', Some (fst item)))"

definition pkg_remove_step ::
  "string \<Rightarrow> bool \<Rightarrow> string option \<Rightarrow> string \<Rightarrow> result \<Rightarrow> result koji" where
  "pkg_remove_step tag check_mode owner_var package result =
     (let result' = add_line (RemovePkg package) result in
      kbind (if \<not> check_mode
             then (case owner_var of
                     None \<Rightarrow> kraise (UnboundLocalError ''owner'')
                   | Some ow \<Rightarrow> packageListRemove tag package ow)
             else kreturn ())
        (\<lambda>_. kreturn result'))"

text \<open>Lines 268-272: \<^verbatim>\<open>current_owned\<close>, and what the loop leaves in \<^verbatim>\<open>owner\<close>.\<close>

definition current_owned_of :: "pkg list \<Rightarrow> string \<Rightarrow> string set" where
  "current_owned_of current_pkgs ow =
     set (map package_name (filter (\<lambda>p. owner_name p = ow) current_pkgs))"

definition owner_after :: "pkg list \<Rightarrow> string option" where
  "owner_after current_pkgs =
     (if current_pkgs = [] then None else Some (owner_name (last current_pkgs)))"

definition ensure_package_list ::
  "string \<Rightarrow> bool \<Rightarrow> int \<Rightarrow> (string \<times> string list) list \<Rightarrow> result \<Rightarrow> result koji" where
  "ensure_package_list tag check_mode tid packages result =
     (if packages = [] then kreturn result
      else
        kbind ensure_logged_in (\<lambda>_.
          kbind (listPackages tid) (\<lambda>current_pkgs.
            let current_names = set (map package_name current_pkgs);
                current_owned = current_owned_of current_pkgs;
                owner_var = owner_after current_pkgs
            in
            kbind (kfold (owner_step tag check_mode current_names current_owned) packages
                     (result, owner_var)) (\<lambda>acc.
              let all_names = concat (map snd packages) in
              kbind (set_difference (map package_name current_pkgs) all_names)
                (\<lambda>delete_names.
                  kfold (pkg_remove_step tag check_mode (snd acc)) delete_names (fst acc))))))"

definition ensure_tag ::
  "string \<Rightarrow> bool \<Rightarrow> inh_decl list \<Rightarrow> repo_decl list option \<Rightarrow> (string \<times> string list) list
     \<Rightarrow> tag_attrs \<Rightarrow> result koji" where
  "ensure_tag tag check_mode inheritance external_repos packages kwargs =
     kbind (getTag tag) (\<lambda>taginfo.
       let result = \<lparr>changed = False, stdout_lines = []\<rparr> in
       case taginfo of
         None \<Rightarrow>
           if check_mode then kreturn (add_line (WouldCreateTag tag) result)
           else
             kbind (create_tag tag kwargs result) (\<lambda>created.
               kbind (ensure_inheritance tag check_mode (fst created) inheritance (snd created))
                 (\<lambda>result.
                 kbind (ensure_tag_repos tag check_mode external_repos result) (\<lambda>result.
                   ensure_package_list tag check_mode (fst created) packages result)))
       | Some ti \<Rightarrow>
           kbind (ensure_tag_params tag check_mode ti kwargs result) (\<lambda>result.
             kbind (ensure_inheritance tag check_mode (tag_id ti) inheritance result)
               (\<lambda>result.
               kbind (ensure_tag_repos tag check_mode external_repos result) (\<lambda>result.
                 ensure_package_list tag check_mode (tag_id ti) packages result))))"

subsection \<open>\<^verbatim>\<open>delete_tag\<close> (lines 301-314)\<close>

definition delete_tag :: "string \<Rightarrow> bool \<Rightarrow> delete_result koji" where
  "delete_tag tag check_mode =
     kbind (getTag tag) (\<lambda>taginfo.
       let result = \<lparr>d_changed = False, d_stdout = None\<rparr> in
       case taginfo of
         Some ti \<Rightarrow>
           (let result' = \<lparr>d_changed = True, d_stdout = Some (DeletedTag (tag_id ti))\<rparr> in
            kbind (if \<not> check_mode
                   then kbind ensure_logged_in (\<lambda>_. deleteTag tag)
                   else kreturn ())
              (\<lambda>_. kreturn result'))
       | None \<Rightarrow> kreturn result)"

subsection \<open>\<^verbatim>\<open>run_module\<close> (lines 317-376)\<close>

text \<open>
  \<^verbatim>\<open>run_module\<close> from the point where the session exists. It is what one process runs:
  \<^verbatim>\<open>ensure_tag\<close> once for \<^verbatim>\<open>state: present\<close>, \<^verbatim>\<open>delete_tag\<close> once for \<^verbatim>\<open>state: absent\<close>, and
  \<^verbatim>\<open>module.fail_json\<close> (the exception \<open>ModuleFail\<close>) for any other state. An exception of
  either function is raised again as \<^verbatim>\<open>AnsibleError\<close>, which carries the name of the
  function and the exception. \<^verbatim>\<open>perm=params['perm'] or None\<close> turns an empty label
  into \<^verbatim>\<open>None\<close>.
\<close>

datatype outcome = TagResult result | DeleteResult delete_result

definition koji_tag_run_module ::
  "bool \<Rightarrow> string \<Rightarrow> string \<Rightarrow> inh_decl list \<Rightarrow> repo_decl list option
     \<Rightarrow> (string \<times> string list) list \<Rightarrow> tag_attrs \<Rightarrow> outcome koji" where
  "koji_tag_run_module check_mode name state inheritance external_repos packages params =
     (if state = ''present''
      then kcatch
             (kbind (ensure_tag name check_mode inheritance external_repos packages
                       (params\<lparr>perm := (if perm params = Some [] then None else perm params)\<rparr>))
                (\<lambda>result. kreturn (TagResult result)))
             (\<lambda>e. kraise (AnsibleError ''ensure_tag'' e))
      else if state = ''absent''
      then kcatch (kbind (delete_tag name check_mode) (\<lambda>result. kreturn (DeleteResult result)))
             (\<lambda>e. kraise (AnsibleError ''delete_tag'' e))
      else kraise (ModuleFail (''State must be '' @ quoted ''present'' @ '' or ''
                     @ quoted ''absent'' @ ''.'')))"

section \<open>\<^verbatim>\<open>koji_cg.py\<close>\<close>

text \<open>
  \<^verbatim>\<open>run_module\<close> (lines 21-67) from the point where the session exists; it returns the
  value of \<^verbatim>\<open>result['changed']\<close>. The module declares \<^verbatim>\<open>supports_check_mode=True\<close>
  and never reads \<^verbatim>\<open>module.check_mode\<close>, so \<open>check_mode\<close> is a parameter that the
  body does not use. \<^verbatim>\<open>module.fail_json\<close> ends the run; it is the exception
  \<open>ModuleFail\<close> here.
\<close>

definition koji_cg_run_module :: "bool \<Rightarrow> string \<Rightarrow> string \<Rightarrow> string \<Rightarrow> bool koji" where
  "koji_cg_run_module check_mode cg user state =
     (if state = ''present''
      then kcatch (kbind (grantCGAccess user cg) (\<lambda>_. kreturn True))
             (\<lambda>e. case e of
                     GenericError m \<Rightarrow>
                       if \<not> contains already_has_access m then kraise e else kreturn False
                   | _ \<Rightarrow> kraise e)
      else if state = ''absent''
      then kbind (revokeCGAccess user cg) (\<lambda>_. kreturn True)
      else kraise (ModuleFail (''State must be '' @ quoted ''present'' @ '' or ''
                     @ quoted ''absent'' @ ''.'')))"

section \<open>Observing a run\<close>

text \<open>\<open>keeps F m\<close>: running \<open>m\<close> leaves the part \<open>F\<close> of the world as it was, whether \<open>m\<close>
  returns or raises. \<open>sends Q m\<close>: \<open>m\<close> only appends to the trace, and every call it
  sends satisfies \<open>Q\<close>.\<close>

definition keeps :: "(world \<Rightarrow> 'x) \<Rightarrow> 'a koji \<Rightarrow> bool" where
  "keeps F m \<longleftrightarrow> (\<forall>w. F (snd (m w)) = F w)"

definition sends :: "(call \<Rightarrow> bool) \<Rightarrow> 'a koji \<Rightarrow> bool" where
  "sends Q m \<longleftrightarrow> (\<forall>w. \<exists>cs. trace (snd (m w)) = trace w @ cs \<and> list_all Q cs)"

section \<open>Example states\<close>

definition ti_ab :: taginfo where
  "ti_ab = \<lparr>arches = None, perm = None, locked = False, maven_support = False,
     maven_include_all = False, extra = [(''a'', EInt 1), (''b'', EInt 2)], tag_id = 1\<rparr>"

definition kw_a :: tag_attrs where
  "kw_a = \<lparr>arches = None, perm = None, locked = False, maven_support = False,
     maven_include_all = False, extra = [(''a'', EInt 1)]\<rparr>"

definition w_noperms :: world where
  "w_noperms = \<lparr>hub_tags = (\<lambda>_. None), hub_next_id = 1, hub_inheritance = (\<lambda>_. []),
     hub_external_repos = (\<lambda>_. []), hub_packages = (\<lambda>_. []), hub_perms = [],
     hub_cg_access = [], hub_refuses = (\<lambda>_. None), trace = [], perm_cache = [],
     set_slot = (\<lambda>_ _. 0)\<rparr>"

definition w_cg :: world where
  "w_cg = \<lparr>hub_tags = (\<lambda>_. None), hub_next_id = 1, hub_inheritance = (\<lambda>_. []),
     hub_external_repos = (\<lambda>_. []), hub_packages = (\<lambda>_. []), hub_perms = [],
     hub_cg_access = [(''kdreyer'', ''debian'')],
     hub_refuses = (\<lambda>c. if c = GrantCGAccess ''nobody'' ''debian''
                        then Some (GenericError ''No such user: nobody'') else None),
     trace = [], perm_cache = [],
     set_slot = (\<lambda>_ _. 0)\<rparr>"

named_theorems keeps_intros

named_theorems sends_intros

fun repo_call :: "call \<Rightarrow> bool" where
  "repo_call (GetTagExternalRepos _) = True"
| "repo_call (EditTagExternalRepo _ _ _) = True"
| "repo_call (AddExternalRepoToTag _ _ _) = True"
| "repo_call (RemoveExternalRepoFromTag _ _) = True"
| "repo_call _ = False"

fun pkg_call :: "call \<Rightarrow> bool" where
  "pkg_call (ListPackages _) = True"
| "pkg_call (PackageListAdd _ _ _) = True"
| "pkg_call (PackageListSetOwner _ _ _) = True"
| "pkg_call (PackageListRemove _ _ _) = True"
| "pkg_call _ = False"

fun pkg_remove_call :: "call \<Rightarrow> bool" where
  "pkg_remove_call (PackageListRemove _ _ _) = True"
| "pkg_remove_call _ = False"

definition no_tag :: taginfo where
  "no_tag = \<lparr>arches = None, perm = None, locked = False, maven_support = False,
     maven_include_all = False, extra = [], tag_id = 0\<rparr>"

definition w_ex :: world where
  "w_ex = \<lparr>hub_tags = (\<lambda>_. None)(''t'' \<mapsto> ti_ab, ''base'' \<mapsto> no_tag\<lparr>tag_id := 2\<rparr>),
     hub_next_id = 3,
     hub_inheritance = (\<lambda>_. []),
     hub_external_repos = (\<lambda>_. [])(''t'' := [\<lparr>external_repo_name = ''a'', ext_priority = 1\<rparr>]),
     hub_packages = (\<lambda>_. [])(1 := [\<lparr>package_name = ''foo'', owner_name = ''bob''\<rparr>,
                                  \<lparr>package_name = ''bar'', owner_name = ''bob''\<rparr>]),
     hub_perms = [\<lparr>perm_name = ''admin'', perm_id = 1\<rparr>],
     hub_cg_access = [], hub_refuses = (\<lambda>_. None), trace = [], perm_cache = [],
     set_slot = (\<lambda>_ _. 0)\<rparr>"

definition unchanged :: result where
  "unchanged = \<lparr>changed = False, stdout_lines = []\<rparr>"

definition repo_calls :: "string \<Rightarrow> (string \<Rightarrow> ext_repo option) \<Rightarrow> repo_decl \<Rightarrow> call list" where
  "repo_calls tag current r =
     (case current (repo r) of
        Some cur \<Rightarrow> if repo_priority r = ext_priority cur then []
                    else [Login, EditTagExternalRepo tag (repo r) (repo_priority r)]
      | None \<Rightarrow> [Login, AddExternalRepoToTag tag (repo r) (repo_priority r)])"

definition repo_effect ::
  "(string \<Rightarrow> ext_repo option) \<Rightarrow> repo_decl \<Rightarrow> ext_repo list \<Rightarrow> ext_repo list" where
  "repo_effect current r bs =
     (case current (repo r) of
        Some cur \<Rightarrow> if repo_priority r = ext_priority cur then bs
                    else map (\<lambda>b. if external_repo_name b = repo r
                                   then b\<lparr>ext_priority := repo_priority r\<rparr> else b) bs
      | None \<Rightarrow> bs @ [\<lparr>external_repo_name = repo r, ext_priority = repo_priority r\<rparr>])"

definition pkg_calls ::
  "string \<Rightarrow> string set \<Rightarrow> (string \<Rightarrow> string set) \<Rightarrow> string \<Rightarrow> string \<Rightarrow> call list" where
  "pkg_calls tag names owned ow q =
     (if q \<notin> names then [PackageListAdd tag q ow]
      else if q \<notin> owned ow then [PackageListSetOwner tag q ow]
      else [])"

definition pkg_effect ::
  "string set \<Rightarrow> (string \<Rightarrow> string set) \<Rightarrow> string \<Rightarrow> string \<Rightarrow> pkg list \<Rightarrow> pkg list" where
  "pkg_effect names owned ow q es =
     (if q \<notin> names then es @ [\<lparr>package_name = q, owner_name = ow\<rparr>]
      else if q \<notin> owned ow
      then map (\<lambda>e. if package_name e = q then e\<lparr>owner_name := ow\<rparr> else e) es
      else es)"

definition owner_calls ::
  "string \<Rightarrow> string set \<Rightarrow> (string \<Rightarrow> string set) \<Rightarrow> string \<times> string list \<Rightarrow> call list" where
  "owner_calls tag names owned item =
     concat (map (pkg_calls tag names owned (fst item)) (snd item))"

definition owner_effect ::
  "string set \<Rightarrow> (string \<Rightarrow> string set) \<Rightarrow> string \<times> string list \<Rightarrow> pkg list \<Rightarrow> pkg list" where
  "owner_effect names owned item = fold (pkg_effect names owned (fst item)) (snd item)"

definition declared_pairs :: "(string \<times> string list) list \<Rightarrow> (string \<times> string) list" where
  "declared_pairs packages = concat (map (\<lambda>item. map (Pair (fst item)) (snd item)) packages)"

fun adds_or_removes_pkg :: "string \<Rightarrow> call \<Rightarrow> bool" where
  "adds_or_removes_pkg q (PackageListAdd _ p _) = (p = q)"
| "adds_or_removes_pkg q (PackageListRemove _ p _) = (p = q)"
| "adds_or_removes_pkg q _ = False"

fun adds_or_removes_repo :: "string \<Rightarrow> call \<Rightarrow> bool" where
  "adds_or_removes_repo n (AddExternalRepoToTag _ m _) = (m = n)"
| "adds_or_removes_repo n (RemoveExternalRepoFromTag _ m) = (m = n)"
| "adds_or_removes_repo n _ = False"

definition w_inh :: world where
  "w_inh = w_ex\<lparr>hub_inheritance := (\<lambda>_. [])(''t'' :=
     [\<lparr>child_id = 1, intransitive = False, maxdepth = None, rule_name = ''base'',
       noconfig = False, parent_id = 2, pkg_filter = [], priority = 1\<rparr>])\<rparr>"

definition kw_locked :: tag_attrs where
  "kw_locked = \<lparr>arches = None, perm = None, locked = True, maven_support = False,
     maven_include_all = False, extra = [(''a'', EInt 1), (''b'', EInt 2)]\<rparr>"

fun reassigns_pkg :: "string \<Rightarrow> call \<Rightarrow> bool" where
  "reassigns_pkg q (PackageListSetOwner _ p _) = (p = q)"
| "reassigns_pkg q _ = False"

fun edits_repo :: "string \<Rightarrow> call \<Rightarrow> bool" where
  "edits_repo n (EditTagExternalRepo _ m _) = (m = n)"
| "edits_repo n _ = False"

definition kw_ab :: tag_attrs where
  "kw_ab = \<lparr>arches = None, perm = None, locked = False, maven_support = False,
     maven_include_all = False, extra = [(''a'', EInt 1), (''b'', EInt 2)]\<rparr>"

definition other_call :: "call \<Rightarrow> bool" where
  "other_call c \<longleftrightarrow> \<not> repo_call c \<and> \<not> pkg_call c"

definition new_owners :: "pkg list \<Rightarrow> (string \<times> string list) list \<Rightarrow> string \<Rightarrow> string list" where
  "new_owners current_pkgs packages q =
     map fst (filter (\<lambda>d. snd d = q \<and> q \<notin> current_owned_of current_pkgs (fst d))
                (declared_pairs packages))"

definition resolve_labels :: "string list \<Rightarrow> int list koji" where
  "resolve_labels labels =
     kfold (\<lambda>label ids. kbind (get_perm_id label) (\<lambda>i. kreturn (ids @ [i]))) labels []"

definition fetches :: "nat \<Rightarrow> 'a koji \<Rightarrow> bool" where
  "fetches n m \<longleftrightarrow>
     (\<forall>w. \<exists>cs. trace (snd (m w)) = trace w @ cs \<and> count_list cs GetAllPerms \<le> n)"

section \<open>Rules for runs\<close>

lemma kbind_Inr: "m w = (Inr x, w') \<Longrightarrow> kbind m f w = f x w'"
  by (simp add: kbind_def)

lemma kbind_Inl: "m w = (Inl e, w') \<Longrightarrow> kbind m f w = (Inl e, w')"
  by (simp add: kbind_def)

lemma kbind_kreturn: "kbind (kreturn x) f = f x"
  by (rule ext) (simp add: kbind_def kreturn_def)

lemma kbind_cases:
  "kbind m f w = (r, w'') \<Longrightarrow>
     (\<exists>e. m w = (Inl e, w'') \<and> r = Inl e) \<or> (\<exists>x w'. m w = (Inr x, w') \<and> f x w' = (r, w''))"
  by (auto simp: kbind_def split: prod.splits sum.splits)

lemma keepsD: "keeps F m \<Longrightarrow> F (snd (m w)) = F w"
  by (simp add: keeps_def)

lemma keeps_kreturn: "keeps F (kreturn x)"
  by (simp add: keeps_def kreturn_def)

lemma keeps_kraise: "keeps F (kraise e)"
  by (simp add: keeps_def kraise_def)

lemma keeps_kbind: "keeps F m \<Longrightarrow> (\<And>x. keeps F (f x)) \<Longrightarrow> keeps F (kbind m f)"
  unfolding keeps_def kbind_def
  by (auto split: prod.splits sum.splits) (metis snd_conv)+

lemma keeps_kfold: "(\<And>x acc. keeps F (body x acc)) \<Longrightarrow> keeps F (kfold body xs acc)"
  unfolding keeps_def
proof (induction xs arbitrary: acc)
  case Nil
  show ?case by simp
next
  case (Cons x xs)
  show ?case
  proof
    fix w
    obtain r w' where step: "body x acc w = (r, w')" by (cases "body x acc w")
    have "F w' = F w" using Cons.prems [of x acc] step by (metis snd_conv)
    then show "F (snd (kfold body (x # xs) acc w)) = F w"
      using step Cons.IH [OF Cons.prems] by (cases r) auto
  qed
qed

lemma keeps_if: "(c \<Longrightarrow> keeps F a) \<Longrightarrow> (\<not> c \<Longrightarrow> keeps F b) \<Longrightarrow> keeps F (if c then a else b)"
  by simp

lemma keeps_option:
  "(x = None \<Longrightarrow> keeps F a) \<Longrightarrow> (\<And>y. x = Some y \<Longrightarrow> keeps F (b y))
     \<Longrightarrow> keeps F (case x of None \<Rightarrow> a | Some y \<Rightarrow> b y)"
  by (cases x) auto

lemma sendsD: "sends Q m \<Longrightarrow> \<exists>cs. trace (snd (m w)) = trace w @ cs \<and> list_all Q cs"
  by (simp add: sends_def)

lemma sends_kreturn: "sends Q (kreturn x)"
  by (simp add: sends_def kreturn_def)

lemma sends_kraise: "sends Q (kraise e)"
  by (simp add: sends_def kraise_def)

lemma sends_kbind: 
  assumes "sends Q m" and "\<And>x. sends Q (f x)"
  shows "sends Q (kbind m f)"
  unfolding sends_def
proof
  fix w
  obtain r w' where step: "m w = (r, w')" by (cases "m w")
  obtain cs where cs: "trace w' = trace w @ cs" "list_all Q cs"
    using sendsD [OF assms(1), of w] step by auto
  show "\<exists>cs. trace (snd (kbind m f w)) = trace w @ cs \<and> list_all Q cs"
  proof (cases r)
    case (Inl e)
    then show ?thesis using step cs by (auto simp: kbind_def)
  next
    case (Inr x)
    obtain ds where ds: "trace (snd (f x w')) = trace w' @ ds" "list_all Q ds"
      using sendsD [OF assms(2), of x w'] by auto
    have "trace (snd (kbind m f w)) = trace w @ (cs @ ds)" "list_all Q (cs @ ds)"
      using Inr step cs ds by (auto simp: kbind_def)
    then show ?thesis by blast
  qed
qed

lemma sends_kfold:
  assumes "\<And>x acc. sends Q (body x acc)"
  shows "sends Q (kfold body xs acc)"
  unfolding sends_def
proof (induction xs arbitrary: acc)
  case Nil
  show ?case by simp
next
  case (Cons x xs)
  show ?case
  proof
    fix w
    obtain r w' where step: "body x acc w = (r, w')" by (cases "body x acc w")
    obtain cs where cs: "trace w' = trace w @ cs" "list_all Q cs"
      using sendsD [OF assms, of x acc w] step by auto
    show "\<exists>cs. trace (snd (kfold body (x # xs) acc w)) = trace w @ cs \<and> list_all Q cs"
    proof (cases r)
      case (Inl e)
      then show ?thesis using step cs by auto
    next
      case (Inr acc')
      obtain ds where ds: "trace (snd (kfold body xs acc' w')) = trace w' @ ds" "list_all Q ds"
        using Cons.IH [of acc'] by blast
      have "trace (snd (kfold body (x # xs) acc w)) = trace w @ (cs @ ds)" "list_all Q (cs @ ds)"
        using Inr step cs ds by auto
      then show ?thesis by blast
    qed
  qed
qed

lemma sends_if: "(c \<Longrightarrow> sends Q a) \<Longrightarrow> (\<not> c \<Longrightarrow> sends Q b) \<Longrightarrow> sends Q (if c then a else b)"
  by simp

lemma sends_option:
  "(x = None \<Longrightarrow> sends Q a) \<Longrightarrow> (\<And>y. x = Some y \<Longrightarrow> sends Q (b y))
     \<Longrightarrow> sends Q (case x of None \<Rightarrow> a | Some y \<Rightarrow> b y)"
  by (cases x) auto

lemma sends_hub_call: "Q c \<Longrightarrow> sends Q act \<Longrightarrow> sends Q (hub_call c act)"
  unfolding sends_def hub_call_def issue_def
  apply (auto split: option.splits)
  subgoal for w
    apply (drule spec [of _ "w\<lparr>trace := trace w @ [c]\<rparr>"])
    apply auto
    done
  done

lemma sends_on_tag: "(\<And>ti w. trace (upd ti w) = trace w) \<Longrightarrow> sends Q (on_tag t upd)"
  unfolding sends_def on_tag_def by (auto split: option.splits)

section \<open>Facts about the hub and the modules\<close>

lemma contains_iff_sublist: "contains needle s \<longleftrightarrow> sublist needle s"
  by (induction s) (auto simp: sublist_Cons_right)

lemma issued_hub_call_refused:
  "hub_refuses w c = Some e \<Longrightarrow> issued (hub_call c act) w = [c]"
  by (simp add: issued_def hub_call_def issue_def)

lemma grant_issued: "issued (grantCGAccess user cg) w = [GrantCGAccess user cg]"
  by (simp add: issued_def grantCGAccess_def hub_call_def issue_def split: option.splits)

lemma revoke_issued: "issued (revokeCGAccess user cg) w = [RevokeCGAccess user cg]"
  by (simp add: issued_def revokeCGAccess_def hub_call_def issue_def split: option.splits)

lemma get_perm_id_cached:
  "perm_cache w \<noteq> [] \<Longrightarrow>
     get_perm_id label w =
       (case map_of (perm_cache w) label of None \<Rightarrow> Inl (KeyError label) | Some i \<Rightarrow> Inr i, w)"
  by (simp add: get_perm_id_def kbind_def split: option.splits)

lemma get_perm_id_fetches:
  "perm_cache w = [] \<Longrightarrow>
     get_perm_id label w =
       (let cache = py_dict (map (\<lambda>p. (perm_name p, perm_id p)) (hub_perms w)) in
        (case map_of cache label of None \<Rightarrow> Inl (KeyError label) | Some i \<Rightarrow> Inr i,
         (issue GetAllPerms w)\<lparr>perm_cache := cache\<rparr>))"
  by (simp add: get_perm_id_def kbind_def getAllPerms_def issue_def Let_def split: option.splits)

lemmas cg_eval = koji_cg_run_module_def grantCGAccess_def revokeCGAccess_def hub_call_def issue_def
  kcatch_def kbind_def kreturn_def kraise_def already_has_access_def issued_def w_cg_def

lemmas hub_defs = hub_call_def on_tag_def issue_def ensure_logged_in_def getTag_def getAllPerms_def
  getInheritanceData_def getTagExternalRepos_def listPackages_def createTag_def editTag2_def
  setInheritanceData_def editTagExternalRepo_def addExternalRepoToTag_def
  removeExternalRepoFromTag_def packageListAdd_def packageListSetOwner_def packageListRemove_def
  grantCGAccess_def revokeCGAccess_def kreturn_def kraise_def deleteTag_def

declare keeps_kreturn [keeps_intros] keeps_kraise [keeps_intros] keeps_kbind [keeps_intros]
  keeps_kfold [keeps_intros] keeps_if [keeps_intros] keeps_option [keeps_intros]

declare sends_kreturn [sends_intros] sends_kraise [sends_intros] sends_kbind [sends_intros]
  sends_kfold [sends_intros] sends_if [sends_intros] sends_option [sends_intros]

lemma keeps_reads [keeps_intros]:
  assumes "\<And>w t. F (w\<lparr>trace := t\<rparr>) = F w"
  shows "keeps F ensure_logged_in" "keeps F (getTag tag)" "keeps F getAllPerms"
    "keeps F (getInheritanceData tag)" "keeps F (getTagExternalRepos tag)"
    "keeps F (listPackages tid)"
  using assms by (simp_all add: keeps_def hub_defs split: option.splits)

lemma keeps_hub_refuses [keeps_intros]:
  "keeps hub_refuses (createTag tag a)" "keeps hub_refuses (editTag2 tag e)"
  "keeps hub_refuses (setInheritanceData tag rs)" "keeps hub_refuses (editTagExternalRepo tag r p)"
  "keeps hub_refuses (addExternalRepoToTag tag r p)" "keeps hub_refuses (removeExternalRepoFromTag tag r)"
  "keeps hub_refuses (packageListAdd tag q ow)" "keeps hub_refuses (packageListSetOwner tag q ow)"
  "keeps hub_refuses (packageListRemove tag q ow)" "keeps hub_refuses (get_perm_id l)"
  by (simp_all add: keeps_def hub_defs get_perm_id_def kbind_def split: option.splits)

lemma keeps_hub_perms [keeps_intros]:
  "keeps hub_perms (createTag tag a)" "keeps hub_perms (editTag2 tag e)"
  "keeps hub_perms (setInheritanceData tag rs)" "keeps hub_perms (editTagExternalRepo tag r p)"
  "keeps hub_perms (addExternalRepoToTag tag r p)" "keeps hub_perms (removeExternalRepoFromTag tag r)"
  "keeps hub_perms (packageListAdd tag q ow)" "keeps hub_perms (packageListSetOwner tag q ow)"
  "keeps hub_perms (packageListRemove tag q ow)" "keeps hub_perms (get_perm_id l)"
  by (simp_all add: keeps_def hub_defs get_perm_id_def kbind_def split: option.splits)

lemma keeps_hub_tags [keeps_intros]:
  "keeps hub_tags (setInheritanceData tag rs)" "keeps hub_tags (editTagExternalRepo tag r p)"
  "keeps hub_tags (addExternalRepoToTag tag r p)" "keeps hub_tags (removeExternalRepoFromTag tag r)"
  "keeps hub_tags (packageListAdd tag q ow)" "keeps hub_tags (packageListSetOwner tag q ow)"
  "keeps hub_tags (packageListRemove tag q ow)" "keeps hub_tags (get_perm_id l)"
  by (simp_all add: keeps_def hub_defs get_perm_id_def kbind_def split: option.splits)

lemma keeps_hub_inheritance [keeps_intros]:
  "keeps hub_inheritance (createTag tag a)" "keeps hub_inheritance (editTag2 tag e)"
  "keeps hub_inheritance (editTagExternalRepo tag r p)"
  "keeps hub_inheritance (addExternalRepoToTag tag r p)" "keeps hub_inheritance (removeExternalRepoFromTag tag r)"
  "keeps hub_inheritance (packageListAdd tag q ow)" "keeps hub_inheritance (packageListSetOwner tag q ow)"
  "keeps hub_inheritance (packageListRemove tag q ow)" "keeps hub_inheritance (get_perm_id l)"
  by (simp_all add: keeps_def hub_defs get_perm_id_def kbind_def split: option.splits)

lemma keeps_hub_external_repos [keeps_intros]:
  "keeps hub_external_repos (createTag tag a)" "keeps hub_external_repos (editTag2 tag e)"
  "keeps hub_external_repos (setInheritanceData tag rs)"
  "keeps hub_external_repos (packageListAdd tag q ow)" "keeps hub_external_repos (packageListSetOwner tag q ow)"
  "keeps hub_external_repos (packageListRemove tag q ow)" "keeps hub_external_repos (get_perm_id l)"
  by (simp_all add: keeps_def hub_defs get_perm_id_def kbind_def split: option.splits)

lemma keeps_hub_packages [keeps_intros]:
  "keeps hub_packages (createTag tag a)" "keeps hub_packages (editTag2 tag e)"
  "keeps hub_packages (setInheritanceData tag rs)" "keeps hub_packages (editTagExternalRepo tag r p)"
  "keeps hub_packages (addExternalRepoToTag tag r p)" "keeps hub_packages (removeExternalRepoFromTag tag r)"
  "keeps hub_packages (get_perm_id l)"
  by (simp_all add: keeps_def hub_defs get_perm_id_def kbind_def split: option.splits)

lemma keeps_set_slot [keeps_intros]:
  "keeps set_slot (createTag tag a)" "keeps set_slot (editTag2 tag e)"
  "keeps set_slot (setInheritanceData tag rs)" "keeps set_slot (editTagExternalRepo tag r p)"
  "keeps set_slot (addExternalRepoToTag tag r p)" "keeps set_slot (removeExternalRepoFromTag tag r)"
  "keeps set_slot (packageListAdd tag q ow)" "keeps set_slot (packageListSetOwner tag q ow)"
  "keeps set_slot (packageListRemove tag q ow)" "keeps set_slot (get_perm_id l)"
  "keeps set_slot (deleteTag tag)"
  by (simp_all add: keeps_def hub_defs get_perm_id_def kbind_def split: option.splits)

lemma keeps_set_difference [keeps_intros]: "keeps F (set_difference xs ys)"
  by (simp add: keeps_def set_difference_def)

lemma sends_set_difference [sends_intros]: "sends Q (set_difference xs ys)"
  by (simp add: sends_def set_difference_def)

lemma keeps_set_slot_loops:
  "keeps set_slot (kfold (repo_step tag chk current) repos res)"
  "keeps set_slot (kfold (owner_step tag chk names owned) pk acc)"
  unfolding repo_step_def owner_step_def pkg_step_def Let_def by (auto intro!: keeps_intros)

lemma set_minus_set [simp]: "set (set_minus slot xs ys) = set xs - set ys"
  by (auto simp: set_minus_def Let_def)

lemma set_minus_distinct [simp]: "distinct (set_minus slot xs ys)"
  by (simp add: set_minus_def Let_def)

lemma set_minus_Nil: "set xs \<subseteq> set ys \<Longrightarrow> set_minus slot xs ys = []"
proof -
  assume "set xs \<subseteq> set ys"
  then have "filter (\<lambda>x. x \<notin> set ys) (remdups xs) = []"
    by (auto simp: filter_empty_conv)
  then show ?thesis by (simp add: set_minus_def)
qed

lemma sends_hub [sends_intros]:
  "Q Login \<Longrightarrow> sends Q ensure_logged_in"
  "Q (GetTag tag) \<Longrightarrow> sends Q (getTag tag)"
  "Q GetAllPerms \<Longrightarrow> sends Q getAllPerms"
  "Q (GetInheritanceData tag) \<Longrightarrow> sends Q (getInheritanceData tag)"
  "Q (GetTagExternalRepos tag) \<Longrightarrow> sends Q (getTagExternalRepos tag)"
  "Q (ListPackages tid) \<Longrightarrow> sends Q (listPackages tid)"
  "Q (CreateTag tag a) \<Longrightarrow> sends Q (createTag tag a)"
  "Q (EditTag2 tag e) \<Longrightarrow> sends Q (editTag2 tag e)"
  "Q (SetInheritanceData tag rs) \<Longrightarrow> sends Q (setInheritanceData tag rs)"
  "Q (EditTagExternalRepo tag r p) \<Longrightarrow> sends Q (editTagExternalRepo tag r p)"
  "Q (AddExternalRepoToTag tag r p) \<Longrightarrow> sends Q (addExternalRepoToTag tag r p)"
  "Q (RemoveExternalRepoFromTag tag r) \<Longrightarrow> sends Q (removeExternalRepoFromTag tag r)"
  "Q (PackageListAdd tag q ow) \<Longrightarrow> sends Q (packageListAdd tag q ow)"
  "Q (PackageListSetOwner tag q ow) \<Longrightarrow> sends Q (packageListSetOwner tag q ow)"
  "Q (PackageListRemove tag q ow) \<Longrightarrow> sends Q (packageListRemove tag q ow)"
  "Q (DeleteTag tag) \<Longrightarrow> sends Q (deleteTag tag)"
  "Q (GrantCGAccess user cg) \<Longrightarrow> sends Q (grantCGAccess user cg)"
  "Q (RevokeCGAccess user cg) \<Longrightarrow> sends Q (revokeCGAccess user cg)"
  by (simp_all add: sends_def hub_defs split: option.splits)

lemma sends_get_perm_id [sends_intros]: "Q GetAllPerms \<Longrightarrow> sends Q (get_perm_id l)"
  by (simp add: sends_def get_perm_id_def kbind_def hub_defs split: option.splits)

lemma sends_ensure_tag_params:
  assumes "\<not> chk \<Longrightarrow> Q Login" "\<And>e. \<not> chk \<Longrightarrow> Q (EditTag2 tag e)"
  shows "sends Q (ensure_tag_params tag chk ti kw res)"
  unfolding ensure_tag_params_def Let_def by (auto intro!: sends_intros assms)

lemma sends_create_tag:
  assumes "Q Login" "Q GetAllPerms" "\<And>a. Q (CreateTag tag a)"
  shows "sends Q (create_tag tag kw res)"
  unfolding create_tag_def by (auto intro!: sends_intros assms)

lemma sends_inh_step: "Q (GetTag (parent r)) \<Longrightarrow> sends Q (inh_step tid r rules)"
  unfolding inh_step_def by (auto intro!: sends_intros)

lemma sends_ensure_inheritance:
  assumes "\<And>t. Q (GetTag t)" "Q (GetInheritanceData tag)" "\<not> chk \<Longrightarrow> Q Login"
    "\<And>rs. \<not> chk \<Longrightarrow> Q (SetInheritanceData tag rs)"
  shows "sends Q (ensure_inheritance tag chk tid inh res)"
  unfolding ensure_inheritance_def Let_def by (auto intro!: sends_intros sends_inh_step assms)

lemma sends_repo_step:
  assumes "\<not> chk \<Longrightarrow> Q Login" "\<And>n p. \<not> chk \<Longrightarrow> Q (EditTagExternalRepo tag n p)"
    "\<And>n p. \<not> chk \<Longrightarrow> Q (AddExternalRepoToTag tag n p)"
  shows "sends Q (repo_step tag chk current r res)"
  unfolding repo_step_def Let_def by (auto intro!: sends_intros assms)

lemma sends_repo_remove_step:
  assumes "\<not> chk \<Longrightarrow> Q Login" "\<And>n. \<not> chk \<Longrightarrow> Q (RemoveExternalRepoFromTag tag n)"
  shows "sends Q (repo_remove_step tag chk n res)"
  unfolding repo_remove_step_def Let_def by (auto intro!: sends_intros assms)

lemma sends_ensure_external_repos:
  assumes "Q (GetTagExternalRepos tag)" "\<not> chk \<Longrightarrow> Q Login"
    "\<And>n p. \<not> chk \<Longrightarrow> Q (EditTagExternalRepo tag n p)"
    "\<And>n p. \<not> chk \<Longrightarrow> Q (AddExternalRepoToTag tag n p)"
    "\<And>n. \<not> chk \<Longrightarrow> Q (RemoveExternalRepoFromTag tag n)"
  shows "sends Q (ensure_external_repos tag chk repos)"
  unfolding ensure_external_repos_def Let_def
  by (auto intro!: sends_intros sends_repo_step sends_repo_remove_step assms)

lemma sends_ensure_tag_repos:
  assumes "Q (GetTagExternalRepos tag)" "\<not> chk \<Longrightarrow> Q Login"
    "\<And>n p. \<not> chk \<Longrightarrow> Q (EditTagExternalRepo tag n p)"
    "\<And>n p. \<not> chk \<Longrightarrow> Q (AddExternalRepoToTag tag n p)"
    "\<And>n. \<not> chk \<Longrightarrow> Q (RemoveExternalRepoFromTag tag n)"
  shows "sends Q (ensure_tag_repos tag chk ext res)"
  unfolding ensure_tag_repos_def
  by (auto intro!: sends_intros sends_ensure_external_repos assms)

lemma sends_pkg_step:
  assumes "\<And>q ow. \<not> chk \<Longrightarrow> Q (PackageListAdd tag q ow)"
    "\<And>q ow. \<not> chk \<Longrightarrow> Q (PackageListSetOwner tag q ow)"
  shows "sends Q (pkg_step tag chk names owned ow q res)"
  unfolding pkg_step_def by (auto intro!: sends_intros assms)

lemma sends_owner_step:
  assumes "\<And>q ow. \<not> chk \<Longrightarrow> Q (PackageListAdd tag q ow)"
    "\<And>q ow. \<not> chk \<Longrightarrow> Q (PackageListSetOwner tag q ow)"
  shows "sends Q (owner_step tag chk names owned item acc)"
  unfolding owner_step_def by (auto intro!: sends_intros sends_pkg_step assms)

lemma sends_pkg_remove_step:
  assumes "\<And>q ow. \<not> chk \<Longrightarrow> Q (PackageListRemove tag q ow)"
  shows "sends Q (pkg_remove_step tag chk ov q res)"
  unfolding pkg_remove_step_def Let_def by (auto intro!: sends_intros assms)

lemma sends_ensure_package_list:
  assumes "Q Login" "Q (ListPackages tid)"
    "\<And>q ow. \<not> chk \<Longrightarrow> Q (PackageListAdd tag q ow)"
    "\<And>q ow. \<not> chk \<Longrightarrow> Q (PackageListSetOwner tag q ow)"
    "\<And>q ow. \<not> chk \<Longrightarrow> Q (PackageListRemove tag q ow)"
  shows "sends Q (ensure_package_list tag chk tid pk res)"
  unfolding ensure_package_list_def Let_def
  by (auto intro!: sends_intros sends_owner_step sends_pkg_remove_step assms)

lemma sends_ensure_tag_check: "sends (\<lambda>c. \<not> mutating c) (ensure_tag tag True inh ext pk kw)"
  unfolding ensure_tag_def Let_def
  by (auto intro!: sends_intros sends_ensure_tag_params sends_ensure_inheritance
      sends_ensure_tag_repos sends_ensure_package_list)

lemma sends_any_ensure_tag: "sends (\<lambda>c. True) (ensure_tag tag chk inh ext pk kw)"
  unfolding ensure_tag_def Let_def
  by (auto intro!: sends_intros sends_ensure_tag_params sends_ensure_inheritance
      sends_ensure_tag_repos sends_ensure_package_list sends_create_tag)

lemma issued_sends:
  assumes "sends Q m"
  shows "trace (snd (m w)) = trace w @ issued m w" and "list_all Q (issued m w)"
  using sendsD [OF assms, of w] by (auto simp: issued_def)

lemma keeps_ensure_tag_params [keeps_intros]:
  "keeps hub_inheritance (ensure_tag_params tag chk ti kw res)"
  "keeps hub_external_repos (ensure_tag_params tag chk ti kw res)"
  "keeps hub_packages (ensure_tag_params tag chk ti kw res)"
  "keeps hub_perms (ensure_tag_params tag chk ti kw res)"
  "keeps hub_refuses (ensure_tag_params tag chk ti kw res)"
  unfolding ensure_tag_params_def Let_def by (auto intro!: keeps_intros)

lemma keeps_create_tag [keeps_intros]:
  "keeps hub_inheritance (create_tag tag kw res)"
  "keeps hub_external_repos (create_tag tag kw res)"
  "keeps hub_packages (create_tag tag kw res)"
  "keeps hub_perms (create_tag tag kw res)"
  "keeps hub_refuses (create_tag tag kw res)"
  unfolding create_tag_def by (auto intro!: keeps_intros)

lemma keeps_inh_step [keeps_intros]:
  "(\<And>w t. F (w\<lparr>trace := t\<rparr>) = F w) \<Longrightarrow> keeps F (inh_step tid r rules)"
  unfolding inh_step_def by (auto intro!: keeps_intros)

lemma keeps_ensure_inheritance [keeps_intros]:
  "keeps hub_tags (ensure_inheritance tag chk tid inh res)"
  "keeps hub_external_repos (ensure_inheritance tag chk tid inh res)"
  "keeps hub_packages (ensure_inheritance tag chk tid inh res)"
  "keeps hub_perms (ensure_inheritance tag chk tid inh res)"
  "keeps hub_refuses (ensure_inheritance tag chk tid inh res)"
  unfolding ensure_inheritance_def Let_def by (auto intro!: keeps_intros)

lemma keeps_ensure_external_repos [keeps_intros]:
  "keeps hub_tags (ensure_external_repos tag chk repos)"
  "keeps hub_inheritance (ensure_external_repos tag chk repos)"
  "keeps hub_packages (ensure_external_repos tag chk repos)"
  "keeps hub_perms (ensure_external_repos tag chk repos)"
  "keeps hub_refuses (ensure_external_repos tag chk repos)"
  unfolding ensure_external_repos_def repo_step_def repo_remove_step_def Let_def
  by (auto intro!: keeps_intros)

lemma keeps_ensure_tag_repos [keeps_intros]:
  "keeps hub_tags (ensure_tag_repos tag chk ext res)"
  "keeps hub_inheritance (ensure_tag_repos tag chk ext res)"
  "keeps hub_packages (ensure_tag_repos tag chk ext res)"
  "keeps hub_perms (ensure_tag_repos tag chk ext res)"
  "keeps hub_refuses (ensure_tag_repos tag chk ext res)"
  unfolding ensure_tag_repos_def by (auto intro!: keeps_intros)

lemma keeps_ensure_package_list [keeps_intros]:
  "keeps hub_tags (ensure_package_list tag chk tid pk res)"
  "keeps hub_inheritance (ensure_package_list tag chk tid pk res)"
  "keeps hub_external_repos (ensure_package_list tag chk tid pk res)"
  "keeps hub_perms (ensure_package_list tag chk tid pk res)"
  "keeps hub_refuses (ensure_package_list tag chk tid pk res)"
  unfolding ensure_package_list_def owner_step_def pkg_step_def pkg_remove_step_def Let_def
  by (auto intro!: keeps_intros)

lemma keeps_set_slot_phases [keeps_intros]:
  "keeps set_slot (ensure_tag_params tag chk ti kw res)"
  "keeps set_slot (create_tag tag kw res)"
  "keeps set_slot (ensure_inheritance tag chk tid inh res)"
  "keeps set_slot (ensure_external_repos tag chk repos)"
  "keeps set_slot (ensure_tag_repos tag chk ext res)"
  "keeps set_slot (ensure_package_list tag chk tid pk res)"
  unfolding ensure_tag_params_def create_tag_def ensure_inheritance_def ensure_tag_repos_def
    ensure_external_repos_def repo_step_def repo_remove_step_def ensure_package_list_def
    owner_step_def pkg_step_def pkg_remove_step_def Let_def
  by (auto intro!: keeps_intros)

lemma ensure_tag_repos_None: "ensure_tag_repos tag chk None res = kreturn res"
  by (simp add: ensure_tag_repos_def)

lemma ensure_package_list_Nil: "ensure_package_list tag chk tid [] res = kreturn res"
  by (simp add: ensure_package_list_def)

lemma keeps_repos_ensure_tag_None:
  "keeps hub_external_repos (ensure_tag tag chk inh None pk kw)"
  unfolding ensure_tag_def Let_def ensure_tag_repos_None
  by (auto intro!: keeps_intros)

lemma sends_ensure_tag_None:
  "sends (\<lambda>c. \<not> repo_call c) (ensure_tag tag chk inh None pk kw)"
  unfolding ensure_tag_def Let_def ensure_tag_repos_None
  by (auto intro!: sends_intros sends_ensure_tag_params sends_ensure_inheritance
      sends_ensure_package_list sends_create_tag)

lemma keeps_packages_ensure_tag_Nil:
  "keeps hub_packages (ensure_tag tag chk inh ext [] kw)"
  unfolding ensure_tag_def Let_def ensure_package_list_Nil
  by (auto intro!: keeps_intros)

lemma sends_ensure_tag_Nil:
  "sends (\<lambda>c. \<not> pkg_call c) (ensure_tag tag chk inh ext [] kw)"
  unfolding ensure_tag_def Let_def ensure_package_list_Nil
  by (auto intro!: sends_intros sends_ensure_tag_params sends_ensure_inheritance
      sends_ensure_tag_repos sends_create_tag)

lemma kbind_InrE:
  assumes "kbind m f w = (Inr r, w'')"
  obtains x w' where "m w = (Inr x, w')" "f x w' = (Inr r, w'')"
  using assms by (auto simp: kbind_def split: prod.splits sum.splits)

lemma kreturn_eq: "kreturn x w = (r, w') \<longleftrightarrow> r = Inr x \<and> w' = w"
  by (auto simp: kreturn_def)

lemma ensure_logged_in_Inr:
  "ensure_logged_in w = (Inr u, w') \<longleftrightarrow> hub_refuses w Login = None \<and> w' = issue Login w"
  by (auto simp: hub_defs split: option.splits)

lemma listPackages_eq:
  "listPackages tid w = (r, w') \<longleftrightarrow> r = Inr (hub_packages w tid) \<and> w' = issue (ListPackages tid) w"
  by (auto simp: listPackages_def)

lemma ensure_package_list_Inr:
  assumes "ensure_package_list tag chk tid packages result w = (Inr result', w')"
    and "packages \<noteq> []"
  shows "hub_refuses w Login = None \<and>
    (\<exists>acc w3.
      kfold (owner_step tag chk (set (map package_name (hub_packages w tid)))
        (current_owned_of (hub_packages w tid))) packages
        (result, owner_after (hub_packages w tid))
        (issue (ListPackages tid) (issue Login w)) = (Inr acc, w3) \<and>
      kfold (pkg_remove_step tag chk (snd acc))
        (set_minus (set_slot w) (map package_name (hub_packages w tid))
           (concat (map snd packages)))
        (fst acc) w3 = (Inr result', w'))"
proof -
  let ?w2 = "issue (ListPackages tid) (issue Login w)"
  from assms have "hub_refuses w Login = None \<and>
    (\<exists>acc w3.
      kfold (owner_step tag chk (set (map package_name (hub_packages w tid)))
        (current_owned_of (hub_packages w tid))) packages
        (result, owner_after (hub_packages w tid)) ?w2 = (Inr acc, w3) \<and>
      kfold (pkg_remove_step tag chk (snd acc))
        (set_minus (set_slot w3) (map package_name (hub_packages w tid))
           (concat (map snd packages)))
        (fst acc) w3 = (Inr result', w'))"
    unfolding ensure_package_list_def Let_def kbind_def
    by (auto simp: ensure_logged_in_def hub_call_def kreturn_def listPackages_def issue_def
        set_difference_def split: prod.splits sum.splits option.splits)
  then obtain acc w3 where login: "hub_refuses w Login = None"
    and loop: "kfold (owner_step tag chk (set (map package_name (hub_packages w tid)))
        (current_owned_of (hub_packages w tid))) packages
        (result, owner_after (hub_packages w tid)) ?w2 = (Inr acc, w3)"
    and rem: "kfold (pkg_remove_step tag chk (snd acc))
        (set_minus (set_slot w3) (map package_name (hub_packages w tid))
           (concat (map snd packages)))
        (fst acc) w3 = (Inr result', w')"
    by blast
  have "set_slot w3 = set_slot ?w2"
    using keepsD [OF keeps_set_slot_loops(2)] loop by (metis snd_conv)
  then have "set_slot w3 = set_slot w" by (simp add: issue_def)
  with login loop rem show ?thesis by auto
qed

lemma owner_loop_var:
  assumes "kfold (owner_step tag chk names owned) packages acc w = (Inr acc', w')"
  shows "snd acc' = (if packages = [] then snd acc else Some (fst (last packages)))"
  using assms
proof (induction packages arbitrary: acc w)
  case Nil
  then show ?case by simp
next
  case (Cons item packages)
  from Cons.prems obtain acc1 w1 where
    step: "owner_step tag chk names owned item acc w = (Inr acc1, w1)"
    and rest: "kfold (owner_step tag chk names owned) packages acc1 w1 = (Inr acc', w')"
    by (auto split: prod.splits sum.splits)
  from step have "snd acc1 = Some (fst item)"
    by (auto simp: owner_step_def kreturn_eq elim!: kbind_InrE)
  with Cons.IH [OF rest] show ?case by simp
qed

lemma pkg_remove_loop_trace:
  assumes "kfold (pkg_remove_step tag False (Some ow)) qs res w = (Inr res', w')"
  shows "trace w' = trace w @ map (\<lambda>q. PackageListRemove tag q ow) qs"
  using assms
proof (induction qs arbitrary: res w)
  case Nil
  then show ?case by simp
next
  case (Cons q qs)
  from Cons.prems obtain res1 w1 where
    step: "pkg_remove_step tag False (Some ow) q res w = (Inr res1, w1)"
    and rest: "kfold (pkg_remove_step tag False (Some ow)) qs res1 w1 = (Inr res', w')"
    by (auto split: prod.splits sum.splits)
  from step have "trace w1 = trace w @ [PackageListRemove tag q ow]"
    by (auto simp: pkg_remove_step_def Let_def kreturn_eq packageListRemove_def hub_call_def
        on_tag_def issue_def elim!: kbind_InrE split: option.splits)
  with Cons.IH [OF rest] show ?case by simp
qed

lemma owner_loop_no_remove:
  "sends (\<lambda>c. \<not> pkg_remove_call c) (kfold (owner_step tag chk names owned) packages acc)"
  by (auto intro!: sends_intros sends_owner_step)

lemmas module_defs = get_perm_id_def py_dict_def index_repos_def repo_step_def repo_remove_step_def
  ensure_external_repos_def set_minus_def set_difference_def add_line_def no_edits_def tag_edits_def dict_eq_def
  ensure_tag_params_def create_tag_def parent_not_found_def quoted_def inh_step_def
  ensure_inheritance_def ensure_tag_repos_def pkg_step_def owner_step_def pkg_remove_step_def
  current_owned_of_def owner_after_def ensure_package_list_def ensure_tag_def
  new_tag_def perm_label_def merge_extra_def apply_edits_def kbind_def kcatch_def issued_def

lemmas example_defs = w_ex_def ti_ab_def kw_a_def unchanged_def no_tag_def

lemma kfold_ConsE:
  assumes "kfold body (x # xs) acc w = (Inr r, w')"
  obtains acc1 w1 where "body x acc w = (Inr acc1, w1)" "kfold body xs acc1 w1 = (Inr r, w')"
  using assms by (auto split: prod.splits sum.splits)

lemma kfold_exact:
  assumes step: "\<And>x acc w acc' w'. x \<in> set xs \<Longrightarrow> body x acc w = (Inr acc', w')
      \<Longrightarrow> trace w' = trace w @ calls x \<and> S w' = eff x (S w)"
    and run: "kfold body xs acc w = (Inr r, w')"
  shows "trace w' = trace w @ concat (map calls xs) \<and> S w' = fold eff xs (S w)"
  using assms
proof (induction xs arbitrary: acc w)
  case Nil
  then show ?case by simp
next
  case (Cons x xs)
  from Cons.prems(2) obtain acc1 w1 where
    s: "body x acc w = (Inr acc1, w1)" and rest: "kfold body xs acc1 w1 = (Inr r, w')"
    by (rule kfold_ConsE)
  have one: "trace w1 = trace w @ calls x \<and> S w1 = eff x (S w)"
    using Cons.prems(1) [of x acc w acc1 w1] s by simp
  have "trace w' = trace w1 @ concat (map calls xs) \<and> S w' = fold eff xs (S w1)"
    using Cons.IH [OF _ rest] Cons.prems(1) by simp
  with one show ?case by simp
qed

lemma kfold_check:
  assumes step: "\<And>x acc w acc' w' v. x \<in> set xs \<Longrightarrow> body x acc w = (Inr acc', w')
      \<Longrightarrow> body' x acc v = (Inr acc', v)"
    and run: "kfold body xs acc w = (Inr r, w')"
  shows "kfold body' xs acc v = (Inr r, v)"
  using assms
proof (induction xs arbitrary: acc w)
  case Nil
  then show ?case by simp
next
  case (Cons x xs)
  from Cons.prems(2) obtain acc1 w1 where
    s: "body x acc w = (Inr acc1, w1)" and rest: "kfold body xs acc1 w1 = (Inr r, w')"
    by (rule kfold_ConsE)
  have "body' x acc v = (Inr acc1, v)"
    using Cons.prems(1) [of x acc w acc1 w1 v] s by simp
  moreover have "kfold body' xs acc1 v = (Inr r, v)"
    using Cons.IH [OF _ rest] Cons.prems(1) by simp
  ultimately show ?case by simp
qed

lemma repo_step_real:
  assumes "repo_step tag False current r res w = (Inr res', w')"
  shows "trace w' = trace w @ repo_calls tag current r \<and>
         hub_external_repos w' tag = repo_effect current r (hub_external_repos w tag)"
    and "repo_step tag True current r res v = (Inr res', v)"
  using assms
  by (auto simp: repo_step_def repo_calls_def repo_effect_def Let_def kbind_def hub_defs
      split: option.splits if_splits prod.splits sum.splits)

lemma repos_loop_real:
  assumes "kfold (repo_step tag False current) repos res w = (Inr res', w')"
  shows "trace w' = trace w @ concat (map (repo_calls tag current) repos) \<and>
         hub_external_repos w' tag = fold (repo_effect current) repos (hub_external_repos w tag)"
    and "kfold (repo_step tag True current) repos res v = (Inr res', v)"
  using kfold_exact [where body = "repo_step tag False current" and calls = "repo_calls tag current"
      and S = "\<lambda>w. hub_external_repos w tag" and eff = "repo_effect current", OF _ assms]
    kfold_check [where body = "repo_step tag False current" and body' = "repo_step tag True current",
      OF _ assms]
    repo_step_real
  by blast+

lemma repo_remove_step_real:
  assumes "repo_remove_step tag False n res w = (Inr res', w')"
  shows "trace w' = trace w @ [Login, RemoveExternalRepoFromTag tag n] \<and>
         hub_external_repos w' tag = filter (\<lambda>b. external_repo_name b \<noteq> n) (hub_external_repos w tag)"
    and "repo_remove_step tag True n res v = (Inr res', v)"
  using assms
  by (auto simp: repo_remove_step_def Let_def kbind_def hub_defs
      split: option.splits if_splits prod.splits sum.splits)

lemma repo_remove_loop_real:
  assumes "kfold (repo_remove_step tag False) ns res w = (Inr res', w')"
  shows "trace w' = trace w @ concat (map (\<lambda>n. [Login, RemoveExternalRepoFromTag tag n]) ns) \<and>
         hub_external_repos w' tag
           = fold (\<lambda>n. filter (\<lambda>b. external_repo_name b \<noteq> n)) ns (hub_external_repos w tag)"
    and "kfold (repo_remove_step tag True) ns res v = (Inr res', v)"
  using kfold_exact [where body = "repo_remove_step tag False"
      and calls = "\<lambda>n. [Login, RemoveExternalRepoFromTag tag n]"
      and S = "\<lambda>w. hub_external_repos w tag"
      and eff = "\<lambda>n. filter (\<lambda>b. external_repo_name b \<noteq> n)", OF _ assms]
    kfold_check [where body = "repo_remove_step tag False" and body' = "repo_remove_step tag True",
      OF _ assms]
    repo_remove_step_real
  by blast+

lemma fold_filter_names:
  "fold (\<lambda>n. filter (\<lambda>b. f b \<noteq> n)) ns bs = filter (\<lambda>b. f b \<notin> set ns) bs"
  by (induction ns arbitrary: bs) (auto intro: filter_cong)

lemma ensure_external_repos_Inr:
  assumes "ensure_external_repos tag chk repos w = (Inr res', w')"
  shows "\<exists>res1 w2.
      kfold (repo_step tag chk (index_repos (hub_external_repos w tag))) repos
        \<lparr>changed = False, stdout_lines = []\<rparr> (issue (GetTagExternalRepos tag) w) = (Inr res1, w2) \<and>
      kfold (repo_remove_step tag chk)
        (set_minus (set_slot w) (map external_repo_name (hub_external_repos w tag))
           (map repo repos)) res1 w2
        = (Inr res', w')"
proof -
  let ?w1 = "issue (GetTagExternalRepos tag) w"
  from assms obtain res1 w2 where
    loop: "kfold (repo_step tag chk (index_repos (hub_external_repos w tag))) repos
        \<lparr>changed = False, stdout_lines = []\<rparr> ?w1 = (Inr res1, w2)"
    and rem: "kfold (repo_remove_step tag chk)
        (set_minus (set_slot w2) (map external_repo_name (hub_external_repos w tag))
           (map repo repos)) res1 w2 = (Inr res', w')"
    unfolding ensure_external_repos_def Let_def kbind_def
    by (auto simp: getTagExternalRepos_def set_difference_def split: prod.splits sum.splits)
  have "set_slot w2 = set_slot ?w1"
    using keepsD [OF keeps_set_slot_loops(1)] loop by (metis snd_conv)
  then have "set_slot w2 = set_slot w" by (simp add: issue_def)
  with loop rem show ?thesis by auto
qed

lemma ensure_external_repos_real:
  assumes "ensure_external_repos tag False repos w = (Inr res', w')"
  shows "trace w' = trace w @ [GetTagExternalRepos tag]
           @ concat (map (repo_calls tag (index_repos (hub_external_repos w tag))) repos)
           @ concat (map (\<lambda>n. [Login, RemoveExternalRepoFromTag tag n])
               (set_minus (set_slot w) (map external_repo_name (hub_external_repos w tag))
                  (map repo repos)))"
    and "hub_external_repos w' tag =
           filter (\<lambda>b. external_repo_name b \<in> set (map repo repos))
             (fold (repo_effect (index_repos (hub_external_repos w tag))) repos
                (hub_external_repos w tag))"
    and "ensure_external_repos tag True repos w = (Inr res', issue (GetTagExternalRepos tag) w)"
proof -
  let ?cur = "index_repos (hub_external_repos w tag)"
  let ?w1 = "issue (GetTagExternalRepos tag) w"
  let ?rm = "set_minus (set_slot w) (map external_repo_name (hub_external_repos w tag)) (map repo repos)"
  from ensure_external_repos_Inr [OF assms] obtain res1 w2 where
    loop: "kfold (repo_step tag False ?cur) repos \<lparr>changed = False, stdout_lines = []\<rparr> ?w1 = (Inr res1, w2)"
    and rem: "kfold (repo_remove_step tag False) ?rm res1 w2 = (Inr res', w')"
    by blast
  note l = repos_loop_real [OF loop] and r = repo_remove_loop_real [OF rem]
  show "trace w' = trace w @ [GetTagExternalRepos tag] @ concat (map (repo_calls tag ?cur) repos)
           @ concat (map (\<lambda>n. [Login, RemoveExternalRepoFromTag tag n]) ?rm)"
    using l(1) r(1) by (simp add: issue_def)
  show "ensure_external_repos tag True repos w = (Inr res', ?w1)"
    using l(2) [of ?w1] r(2) [of ?w1]
    by (simp add: ensure_external_repos_def Let_def kbind_def getTagExternalRepos_def
        set_difference_def issue_def)
  have names: "set (map external_repo_name (fold (repo_effect ?cur) repos bs))
      \<subseteq> set (map external_repo_name bs) \<union> set (map repo repos)" for bs
  proof (induction repos arbitrary: bs)
    case Nil
    show ?case by simp
  next
    case (Cons r repos)
    have "set (map external_repo_name (repo_effect ?cur r bs))
        \<subseteq> set (map external_repo_name bs) \<union> {repo r}"
      by (auto simp: repo_effect_def split: option.splits if_splits)
    with Cons.IH [of "repo_effect ?cur r bs"] show ?case by auto
  qed
  have "hub_external_repos w' tag = filter (\<lambda>b. external_repo_name b \<notin> set ?rm)
      (fold (repo_effect ?cur) repos (hub_external_repos w tag))"
    using l(1) r(1) by (simp add: fold_filter_names issue_def)
  also have "\<dots> = filter (\<lambda>b. external_repo_name b \<in> set (map repo repos))
      (fold (repo_effect ?cur) repos (hub_external_repos w tag))"
    using names [of "hub_external_repos w tag"]
    by (intro filter_cong) auto
  finally show "hub_external_repos w' tag =
           filter (\<lambda>b. external_repo_name b \<in> set (map repo repos))
             (fold (repo_effect ?cur) repos (hub_external_repos w tag))" .
qed

lemma kfold_exact_inv:
  assumes step: "\<And>x acc w acc' w'. x \<in> set xs \<Longrightarrow> I w \<Longrightarrow> body x acc w = (Inr acc', w')
      \<Longrightarrow> S w' = eff x (S w) \<and> I w'"
    and run: "kfold body xs acc w = (Inr r, w')"
    and inv: "I w"
  shows "S w' = fold eff xs (S w) \<and> I w'"
  using assms
proof (induction xs arbitrary: acc w)
  case Nil
  then show ?case by simp
next
  case (Cons x xs)
  from Cons.prems(2) obtain acc1 w1 where
    s: "body x acc w = (Inr acc1, w1)" and rest: "kfold body xs acc1 w1 = (Inr r, w')"
    by (rule kfold_ConsE)
  have one: "S w1 = eff x (S w) \<and> I w1"
    using Cons.prems(1) [of x w acc acc1 w1] s Cons.prems(3) by simp
  have "S w' = fold eff xs (S w1) \<and> I w'"
  proof (rule Cons.IH [OF _ rest])
    show "I w1" using one by simp
    show "S w'' = eff y (S v) \<and> I w''"
      if "y \<in> set xs" "I v" "body y a v = (Inr a', w'')" for y a v a' w''
      using Cons.prems(1) [of y v a a' w''] that by simp
  qed
  with one show ?case by simp
qed

lemma fold_ignore: "fold (\<lambda>x t. t) xs t = t"
  by (induction xs) auto

lemma pkg_step_real:
  assumes "pkg_step tag False names owned ow q res w = (Inr res', w')"
  shows "trace w' = trace w @ pkg_calls tag names owned ow q \<and> hub_tags w' = hub_tags w"
    and "pkg_step tag True names owned ow q res v = (Inr res', v)"
    and "hub_tags w tag = Some ti \<Longrightarrow>
           hub_packages w' (tag_id ti) = pkg_effect names owned ow q (hub_packages w (tag_id ti))"
  using assms
  by (auto simp: pkg_step_def pkg_calls_def pkg_effect_def kbind_def hub_defs
      split: option.splits if_splits prod.splits sum.splits)

lemma pkg_loop_real:
  assumes "kfold (pkg_step tag False names owned ow) qs res w = (Inr res', w')"
  shows "trace w' = trace w @ concat (map (pkg_calls tag names owned ow) qs)
         \<and> hub_tags w' = hub_tags w"
    and "kfold (pkg_step tag True names owned ow) qs res v = (Inr res', v)"
    and "hub_tags w tag = Some ti \<Longrightarrow>
           hub_packages w' (tag_id ti) = fold (pkg_effect names owned ow) qs (hub_packages w (tag_id ti))"
proof -
  show "trace w' = trace w @ concat (map (pkg_calls tag names owned ow) qs)
         \<and> hub_tags w' = hub_tags w"
    using kfold_exact [where body = "pkg_step tag False names owned ow"
      and calls = "pkg_calls tag names owned ow" and S = hub_tags and eff = "\<lambda>q t. t", OF _ assms]
      pkg_step_real(1)
    by (simp add: fold_ignore)
  show "kfold (pkg_step tag True names owned ow) qs res v = (Inr res', v)"
    using kfold_check [where body = "pkg_step tag False names owned ow"
        and body' = "pkg_step tag True names owned ow", OF _ assms] pkg_step_real(2)
    by blast
  show "hub_packages w' (tag_id ti) = fold (pkg_effect names owned ow) qs (hub_packages w (tag_id ti))"
    if "hub_tags w tag = Some ti"
    using kfold_exact_inv [where body = "pkg_step tag False names owned ow"
        and S = "\<lambda>w. hub_packages w (tag_id ti)" and eff = "pkg_effect names owned ow"
        and I = "\<lambda>w. hub_tags w tag = Some ti", OF _ assms that]
      pkg_step_real(1,3)
    by metis
qed

lemma owner_step_real:
  assumes "owner_step tag False names owned item acc w = (Inr acc', w')"
  shows "trace w' = trace w @ owner_calls tag names owned item \<and> hub_tags w' = hub_tags w"
    and "owner_step tag True names owned item acc v = (Inr acc', v)"
    and "hub_tags w tag = Some ti \<Longrightarrow>
           hub_packages w' (tag_id ti) = owner_effect names owned item (hub_packages w (tag_id ti))"
proof -
  from assms obtain res1 where
    inner: "kfold (pkg_step tag False names owned (fst item)) (snd item) (fst acc) w = (Inr res1, w')"
    and acc': "acc' = (res1, Some (fst item))"
    by (auto simp: owner_step_def kreturn_eq elim!: kbind_InrE)
  note l = pkg_loop_real [OF inner]
  show "trace w' = trace w @ owner_calls tag names owned item \<and> hub_tags w' = hub_tags w"
    using l(1) by (simp add: owner_calls_def)
  show "owner_step tag True names owned item acc v = (Inr acc', v)"
    using l(2) [of v] acc' by (simp add: owner_step_def kbind_def kreturn_def)
  show "hub_packages w' (tag_id ti) = owner_effect names owned item (hub_packages w (tag_id ti))"
    if "hub_tags w tag = Some ti"
    using l(3) [OF that] by (simp add: owner_effect_def)
qed

lemma owner_loop_real:
  assumes "kfold (owner_step tag False names owned) packages acc w = (Inr acc', w')"
  shows "trace w' = trace w @ concat (map (owner_calls tag names owned) packages)
         \<and> hub_tags w' = hub_tags w"
    and "kfold (owner_step tag True names owned) packages acc v = (Inr acc', v)"
    and "hub_tags w tag = Some ti \<Longrightarrow>
           hub_packages w' (tag_id ti) = fold (owner_effect names owned) packages (hub_packages w (tag_id ti))"
proof -
  show "trace w' = trace w @ concat (map (owner_calls tag names owned) packages)
         \<and> hub_tags w' = hub_tags w"
    using kfold_exact [where body = "owner_step tag False names owned"
      and calls = "owner_calls tag names owned" and S = hub_tags and eff = "\<lambda>q t. t", OF _ assms]
      owner_step_real(1)
    by (simp add: fold_ignore)
  show "kfold (owner_step tag True names owned) packages acc v = (Inr acc', v)"
    using kfold_check [where body = "owner_step tag False names owned"
        and body' = "owner_step tag True names owned", OF _ assms] owner_step_real(2)
    by blast
  show "hub_packages w' (tag_id ti) = fold (owner_effect names owned) packages (hub_packages w (tag_id ti))"
    if "hub_tags w tag = Some ti"
    using kfold_exact_inv [where body = "owner_step tag False names owned"
        and S = "\<lambda>w. hub_packages w (tag_id ti)" and eff = "owner_effect names owned"
        and I = "\<lambda>w. hub_tags w tag = Some ti", OF _ assms that]
      owner_step_real(1,3)
    by metis
qed

lemma pkg_remove_step_real:
  assumes "pkg_remove_step tag False ov q res w = (Inr res', w')"
  shows "\<exists>ow. ov = Some ow \<and> trace w' = trace w @ [PackageListRemove tag q ow]"
    and "hub_tags w' = hub_tags w"
    and "pkg_remove_step tag True ov' q res v = (Inr res', v)"
    and "hub_tags w tag = Some ti \<Longrightarrow>
           hub_packages w' (tag_id ti) = filter (\<lambda>e. package_name e \<noteq> q) (hub_packages w (tag_id ti))"
  using assms
  by (auto simp: pkg_remove_step_def Let_def kbind_def hub_defs
      split: option.splits if_splits prod.splits sum.splits)

lemma pkg_remove_loop_real:
  assumes "kfold (pkg_remove_step tag False ov) qs res w = (Inr res', w')"
  shows "hub_tags w' = hub_tags w"
    and "kfold (pkg_remove_step tag True ov') qs res v = (Inr res', v)"
    and "hub_tags w tag = Some ti \<Longrightarrow>
           hub_packages w' (tag_id ti)
             = filter (\<lambda>e. package_name e \<notin> set qs) (hub_packages w (tag_id ti))"
proof -
  show "hub_tags w' = hub_tags w"
    using kfold_exact_inv [where body = "pkg_remove_step tag False ov"
        and S = hub_tags and eff = "\<lambda>q t. t" and I = "\<lambda>w. True", OF _ assms]
      pkg_remove_step_real(2)
    by (simp add: fold_ignore)
  show "kfold (pkg_remove_step tag True ov') qs res v = (Inr res', v)"
    using kfold_check [where body = "pkg_remove_step tag False ov"
        and body' = "pkg_remove_step tag True ov'", OF _ assms] pkg_remove_step_real(3)
    by blast
  show "hub_packages w' (tag_id ti) = filter (\<lambda>e. package_name e \<notin> set qs) (hub_packages w (tag_id ti))"
    if "hub_tags w tag = Some ti"
    using kfold_exact_inv [where body = "pkg_remove_step tag False ov"
        and S = "\<lambda>w. hub_packages w (tag_id ti)" and eff = "\<lambda>q. filter (\<lambda>e. package_name e \<noteq> q)"
        and I = "\<lambda>w. hub_tags w tag = Some ti", OF _ assms that]
      pkg_remove_step_real(2,4)
    by (simp add: fold_filter_names)
qed

lemma pkg_effect_names:
  "package_name ` set (pkg_effect names owned ow q es) \<subseteq> package_name ` set es \<union> {q}"
  by (auto simp: pkg_effect_def)

lemma pkg_effects_names:
  "package_name ` set (fold (pkg_effect names owned ow) qs es) \<subseteq> package_name ` set es \<union> set qs"
proof (induction qs arbitrary: es)
  case Nil
  show ?case by simp
next
  case (Cons q qs)
  show ?case
    using Cons.IH [of "pkg_effect names owned ow q es"] pkg_effect_names [of names owned ow q es]
    by (simp add: subset_iff) blast
qed

lemma owner_effect_names:
  "package_name ` set (fold (owner_effect names owned) pk es)
     \<subseteq> package_name ` set es \<union> set (concat (map snd pk))"
proof (induction pk arbitrary: es)
  case Nil
  show ?case by simp
next
  case (Cons item pk)
  show ?case
    using Cons.IH [of "owner_effect names owned item es"]
      pkg_effects_names [of names owned "fst item" "snd item" es]
    by (simp add: owner_effect_def subset_iff) blast
qed

lemma ensure_package_list_real:
  assumes run: "ensure_package_list tag False tid packages res w = (Inr res', w')"
    and ne: "packages \<noteq> []"
  shows "trace w' = trace w @ [Login, ListPackages tid]
           @ concat (map (owner_calls tag (set (map package_name (hub_packages w tid)))
                            (current_owned_of (hub_packages w tid))) packages)
           @ map (\<lambda>q. PackageListRemove tag q (fst (last packages)))
               (set_minus (set_slot w) (map package_name (hub_packages w tid))
                  (concat (map snd packages)))"
    and "ensure_package_list tag True tid packages res w
           = (Inr res', issue (ListPackages tid) (issue Login w))"
    and "hub_tags w tag = Some ti \<Longrightarrow> tag_id ti = tid \<Longrightarrow>
           hub_packages w' tid =
             filter (\<lambda>e. package_name e \<in> set (concat (map snd packages)))
               (fold (owner_effect (set (map package_name (hub_packages w tid)))
                        (current_owned_of (hub_packages w tid))) packages (hub_packages w tid))"
proof -
  let ?names = "set (map package_name (hub_packages w tid))"
  let ?owned = "current_owned_of (hub_packages w tid)"
  let ?w2 = "issue (ListPackages tid) (issue Login w)"
  let ?dn = "set_minus (set_slot w) (map package_name (hub_packages w tid)) (concat (map snd packages))"
  from ensure_package_list_Inr [OF run ne] obtain acc w3 where
    login: "hub_refuses w Login = None"
    and loop: "kfold (owner_step tag False ?names ?owned) packages
        (res, owner_after (hub_packages w tid)) ?w2 = (Inr acc, w3)"
    and rem: "kfold (pkg_remove_step tag False (snd acc)) ?dn (fst acc) w3 = (Inr res', w')"
    by blast
  have owner: "snd acc = Some (fst (last packages))"
    using owner_loop_var [OF loop] ne by simp
  note l = owner_loop_real [OF loop]
  note r = pkg_remove_loop_real [OF rem]
  show "trace w' = trace w @ [Login, ListPackages tid]
           @ concat (map (owner_calls tag ?names ?owned) packages)
           @ map (\<lambda>q. PackageListRemove tag q (fst (last packages))) ?dn"
    using l(1) pkg_remove_loop_trace rem owner by (simp add: issue_def)
  show "ensure_package_list tag True tid packages res w = (Inr res', ?w2)"
    using l(2) [of ?w2] r(2) [of "snd acc" ?w2] login ne
    by (simp add: ensure_package_list_def Let_def kbind_def hub_defs set_difference_def)
  show "hub_packages w' tid = filter (\<lambda>e. package_name e \<in> set (concat (map snd packages)))
               (fold (owner_effect ?names ?owned) packages (hub_packages w tid))"
    if ti: "hub_tags w tag = Some ti" "tag_id ti = tid"
  proof -
    have t2: "hub_tags ?w2 tag = Some ti" using ti by (simp add: issue_def)
    have t3: "hub_tags w3 tag = Some ti" using l(1) t2 by simp
    have "hub_packages w' tid = filter (\<lambda>e. package_name e \<notin> set ?dn)
        (fold (owner_effect ?names ?owned) packages (hub_packages w tid))"
      using l(3) [OF t2] r(3) [OF t3] ti(2) by (simp add: issue_def)
    also have "\<dots> = filter (\<lambda>e. package_name e \<in> set (concat (map snd packages)))
        (fold (owner_effect ?names ?owned) packages (hub_packages w tid))"
      using owner_effect_names [of ?names ?owned packages "hub_packages w tid"]
      by (intro filter_cong) auto
    finally show ?thesis .
  qed
qed

lemma count_list_concat_map:
  assumes "\<And>x. x \<in> set xs \<Longrightarrow> count_list (f x) c = count_list (g x) k"
  shows "count_list (concat (map f xs)) c = count_list (concat (map g xs)) k"
  using assms by (induction xs) auto

lemma count_list_zero: "c \<notin> set xs \<Longrightarrow> count_list xs c = 0"
  by (induction xs) auto

lemma issued_eq: "m w = (r, w') \<Longrightarrow> trace w' = trace w @ cs \<Longrightarrow> issued m w = cs"
  by (simp add: issued_def)

lemma pkg_calls_count:
  assumes "q \<in> names" "q \<notin> owned ow"
  shows "count_list (pkg_calls tag names owned ow' p) (PackageListSetOwner tag q ow)
           = count_list [(ow', p)] (ow, q)"
  using assms by (auto simp: pkg_calls_def)

lemma owner_calls_count:
  assumes "q \<in> names" "q \<notin> owned ow"
  shows "count_list (owner_calls tag names owned item) (PackageListSetOwner tag q ow)
           = count_list (map (Pair (fst item)) (snd item)) (ow, q)"
proof -
  have "count_list (concat (map (pkg_calls tag names owned (fst item)) (snd item)))
          (PackageListSetOwner tag q ow)
        = count_list (concat (map (\<lambda>p. [(fst item, p)]) (snd item))) (ow, q)"
    by (rule count_list_concat_map) (simp add: pkg_calls_count assms)
  moreover have "concat (map (\<lambda>p. [(fst item, p)]) (snd item)) = map (Pair (fst item)) (snd item)"
    by (induction "snd item") auto
  ultimately show ?thesis by (simp add: owner_calls_def)
qed

lemma owner_calls_no_add:
  assumes "q \<in> names"
  shows "filter (adds_or_removes_pkg q) (owner_calls tag names owned item) = []"
  using assms by (auto simp: owner_calls_def pkg_calls_def filter_empty_conv)

lemma repo_calls_count:
  assumes "current (repo r) = Some cur" "ext_priority cur \<noteq> repo_priority r"
  shows "count_list (repo_calls tag current d) (EditTagExternalRepo tag (repo r) (repo_priority r))
           = count_list [d] r"
  using assms by (cases "current (repo d)") (auto simp: repo_calls_def)

lemma repo_calls_no_add:
  assumes "current n = Some cur"
  shows "filter (adds_or_removes_repo n) (repo_calls tag current d) = []"
  using assms by (auto simp: repo_calls_def split: option.splits)

lemma concat_singletons: "concat (map (\<lambda>x. [x]) xs) = xs"
  by (induction xs) auto

lemma inh_step_eq:
  "inh_step tid r rules w =
     (case hub_tags w (parent r) of
        None \<Rightarrow> Inl (parent_not_found (parent r))
      | Some pt \<Rightarrow> Inr (rules @
          [\<lparr>child_id = tid, intransitive = False, maxdepth = None, rule_name = parent r,
            noconfig = False, parent_id = tag_id pt, pkg_filter = [],
            priority = inh_priority r\<rparr>]),
      issue (GetTag (parent r)) w)"
  by (simp add: inh_step_def kbind_def getTag_def kraise_def kreturn_def split: option.splits)

lemma keeps_inh_loop:
  "(\<And>w t. F (w\<lparr>trace := t\<rparr>) = F w) \<Longrightarrow> keeps F (kfold (inh_step tid) inh rules)"
  by (auto intro!: keeps_intros)

lemma sends_inh_loop: "sends (\<lambda>c. \<not> mutating c) (kfold (inh_step tid) inh rules)"
  by (auto intro!: sends_intros sends_inh_step)

lemma inh_loop_ids:
  assumes "\<And>n. map_option tag_id (hub_tags w1 n) = map_option tag_id (hub_tags w2 n)"
  shows "fst (kfold (inh_step tid) inh rules w1) = fst (kfold (inh_step tid) inh rules w2)"
  using assms
proof (induction inh arbitrary: rules w1 w2)
  case Nil
  show ?case by simp
next
  case (Cons r inh)
  have same: "map_option tag_id (hub_tags w1 (parent r)) = map_option tag_id (hub_tags w2 (parent r))"
    by (rule Cons.prems)
  have next_ids: "map_option tag_id (hub_tags (issue c1 w1) n) = map_option tag_id (hub_tags (issue c2 w2) n)"
    for c1 c2 n
    using Cons.prems [of n] by (simp add: issue_def)
  show ?case
  proof (cases "hub_tags w1 (parent r)")
    case None
    then have "hub_tags w2 (parent r) = None" using same by simp
    with None show ?thesis by (simp add: inh_step_eq)
  next
    case (Some p1)
    then obtain p2 where p2: "hub_tags w2 (parent r) = Some p2" "tag_id p2 = tag_id p1"
      using same by (cases "hub_tags w2 (parent r)") auto
    show ?thesis
      using Some p2 Cons.IH [OF next_ids] by (simp add: inh_step_eq)
  qed
qed

lemma inh_loop_missing:
  assumes "find (\<lambda>r. hub_tags w (parent r) = None) inh = Some r0"
  shows "fst (kfold (inh_step tid) inh rules w) = Inl (parent_not_found (parent r0))"
  using assms
proof (induction inh arbitrary: rules w)
  case Nil
  then show ?case by simp
next
  case (Cons r inh)
  show ?case
  proof (cases "hub_tags w (parent r)")
    case None
    with Cons.prems show ?thesis by (simp add: inh_step_eq)
  next
    case (Some pt)
    then have "find (\<lambda>r. hub_tags (issue (GetTag (parent r)) w) (parent r) = None) inh = Some r0"
      using Cons.prems by (simp add: issue_def)
    then have "find (\<lambda>r'. hub_tags (issue (GetTag (parent r)) w) (parent r') = None) inh = Some r0"
      using Cons.prems Some by (simp add: issue_def)
    from Cons.IH [OF this] Some show ?thesis by (simp add: inh_step_eq)
  qed
qed

lemma inh_loop_shape:
  assumes "kfold (inh_step tid) inh rules w = (Inr rules', w')"
  shows "map rule_name rules' = map rule_name rules @ map parent inh \<and>
         map priority rules' = map priority rules @ map inh_priority inh \<and>
         (list_all (\<lambda>\<rho>. child_id \<rho> = tid \<and> \<not> intransitive \<rho> \<and> maxdepth \<rho> = None \<and>
                        \<not> noconfig \<rho> \<and> pkg_filter \<rho> = []) rules \<longrightarrow>
          list_all (\<lambda>\<rho>. child_id \<rho> = tid \<and> \<not> intransitive \<rho> \<and> maxdepth \<rho> = None \<and>
                        \<not> noconfig \<rho> \<and> pkg_filter \<rho> = []) rules')"
  using assms
proof (induction inh arbitrary: rules w)
  case Nil
  then show ?case by simp
next
  case (Cons r inh)
  from Cons.prems obtain rules1 w1 where
    s: "inh_step tid r rules w = (Inr rules1, w1)" and rest: "kfold (inh_step tid) inh rules1 w1 = (Inr rules', w')"
    by (rule kfold_ConsE)
  from s have "\<exists>pid. rules1 = rules @
          [\<lparr>child_id = tid, intransitive = False, maxdepth = None, rule_name = parent r,
            noconfig = False, parent_id = pid, pkg_filter = [],
            priority = inh_priority r\<rparr>]"
    by (auto simp: inh_step_eq split: option.splits)
  then obtain pid where "rules1 = rules @
          [\<lparr>child_id = tid, intransitive = False, maxdepth = None, rule_name = parent r,
            noconfig = False, parent_id = pid, pkg_filter = [],
            priority = inh_priority r\<rparr>]" ..
  with Cons.IH [OF rest] show ?case by simp
qed

lemma ensure_inheritance_Inr:
  assumes "ensure_inheritance tag chk tid inh res w = (Inr res', w')"
  shows "\<exists>rules w1. kfold (inh_step tid) inh [] w = (Inr rules, w1) \<and>
     (if hub_inheritance w tag = rules
      then res' = res \<and> w' = issue (GetInheritanceData tag) w1
      else res' = add_line (InheritanceIs inh) res \<and>
           (if chk then w' = issue (GetInheritanceData tag) w1
            else hub_refuses w Login = None \<and> hub_refuses w (SetInheritanceData tag rules) = None \<and>
                 w' = (issue (SetInheritanceData tag rules) (issue Login
                         (issue (GetInheritanceData tag) w1)))
                       \<lparr>hub_inheritance := (hub_inheritance w)(tag := rules)\<rparr>))"
proof -
  obtain r1 w1 where loop: "kfold (inh_step tid) inh [] w = (r1, w1)"
    by (cases "kfold (inh_step tid) inh [] w")
  have k: "hub_inheritance w1 = hub_inheritance w" "hub_refuses w1 = hub_refuses w"
    using keepsD [OF keeps_inh_loop, of hub_inheritance tid inh "[]" w]
      keepsD [OF keeps_inh_loop, of hub_refuses tid inh "[]" w] loop by simp_all
  from assms loop obtain rules where r1: "r1 = Inr rules"
    by (cases r1) (auto simp: ensure_inheritance_def kbind_def)
  show ?thesis
    using assms loop r1 k
    by (auto simp: ensure_inheritance_def kbind_def Let_def hub_defs
        split: if_splits option.splits prod.splits sum.splits)
qed

lemma inh_loop_trace:
  assumes "kfold (inh_step tid) inh rules w = (r, w1)"
  shows "\<exists>cs. trace w1 = trace w @ cs \<and> filter mutating cs = []"
proof -
  obtain cs where "trace w1 = trace w @ cs" "list_all (\<lambda>c. \<not> mutating c) cs"
    using sendsD [OF sends_inh_loop, of tid inh rules w] assms by auto
  then show ?thesis by (auto simp: filter_empty_conv list_all_iff)
qed

lemma ensure_tag_params_none:
  "tag_edits ti kw = no_edits \<Longrightarrow> ensure_tag_params tag chk ti kw res w = (Inr res, w)"
  by (simp add: ensure_tag_params_def kreturn_def)

lemma ensure_tag_params_check:
  "tag_edits ti kw \<noteq> no_edits \<Longrightarrow>
     ensure_tag_params tag True ti kw res w = (Inr (add_line (EditsStr (tag_edits ti kw)) res), w)"
  by (simp add: ensure_tag_params_def Let_def kbind_def kreturn_def)

lemma ensure_tag_params_real:
  assumes "tag_edits ti kw \<noteq> no_edits" "hub_refuses w Login = None"
    "hub_refuses w (EditTag2 tag (tag_edits ti kw)) = None" "hub_tags w tag = Some tj"
  shows "ensure_tag_params tag False ti kw res w =
     (Inr (add_line (EditsStr (tag_edits ti kw)) res),
      w\<lparr>trace := trace w @ [Login, EditTag2 tag (tag_edits ti kw)],
        hub_tags := (hub_tags w)(tag \<mapsto> apply_edits (tag_edits ti kw) tj)\<rparr>)"
  using assms by (simp add: ensure_tag_params_def Let_def kbind_def hub_defs)

lemma ensure_tag_params_Inr:
  assumes "ensure_tag_params tag False ti kw res w = (Inr res', w')"
    and "tag_edits ti kw \<noteq> no_edits"
  shows "\<exists>tj. hub_tags w tag = Some tj \<and> hub_refuses w Login = None \<and>
     hub_refuses w (EditTag2 tag (tag_edits ti kw)) = None \<and>
     res' = add_line (EditsStr (tag_edits ti kw)) res \<and>
     w' = w\<lparr>trace := trace w @ [Login, EditTag2 tag (tag_edits ti kw)],
            hub_tags := (hub_tags w)(tag \<mapsto> apply_edits (tag_edits ti kw) tj)\<rparr>"
  using assms
  by (auto simp: ensure_tag_params_def Let_def kbind_def hub_defs
      split: option.splits prod.splits sum.splits)

lemma ensure_inheritance_missing:
  assumes "find (\<lambda>r. hub_tags w (parent r) = None) inh = Some r0"
  shows "fst (ensure_inheritance tag chk tid inh res w) = Inl (parent_not_found (parent r0))"
    and "hub_tags (snd (ensure_inheritance tag chk tid inh res w)) = hub_tags w"
    and "hub_inheritance (snd (ensure_inheritance tag chk tid inh res w)) = hub_inheritance w"
    and "\<exists>cs. trace (snd (ensure_inheritance tag chk tid inh res w)) = trace w @ cs
           \<and> filter mutating cs = []"
proof -
  obtain w1 where loop: "kfold (inh_step tid) inh [] w = (Inl (parent_not_found (parent r0)), w1)"
    using inh_loop_missing [OF assms, of tid "[]"] by (cases "kfold (inh_step tid) inh [] w") auto
  then have run: "ensure_inheritance tag chk tid inh res w = (Inl (parent_not_found (parent r0)), w1)"
    by (simp add: ensure_inheritance_def kbind_def)
  show "fst (ensure_inheritance tag chk tid inh res w) = Inl (parent_not_found (parent r0))"
    using run by simp
  show "hub_tags (snd (ensure_inheritance tag chk tid inh res w)) = hub_tags w"
    using keepsD [OF keeps_inh_loop, of hub_tags tid inh "[]" w] loop run by simp
  show "hub_inheritance (snd (ensure_inheritance tag chk tid inh res w)) = hub_inheritance w"
    using keepsD [OF keeps_inh_loop, of hub_inheritance tid inh "[]" w] loop run by simp
  show "\<exists>cs. trace (snd (ensure_inheritance tag chk tid inh res w)) = trace w @ cs
           \<and> filter mutating cs = []"
    using inh_loop_trace [OF loop] run by simp
qed

lemma keeps_check_mode:
  "keeps hub_tags (ensure_tag_params tag True ti kw res)"
  "keeps hub_inheritance (ensure_inheritance tag True tid inh res)"
  "keeps hub_external_repos (ensure_tag_repos tag True ext res)"
  "keeps hub_packages (ensure_package_list tag True tid pk res)"
  unfolding ensure_tag_params_def ensure_inheritance_def ensure_tag_repos_def
    ensure_external_repos_def repo_step_def repo_remove_step_def ensure_package_list_def
    owner_step_def pkg_step_def pkg_remove_step_def Let_def
  by (auto intro!: keeps_intros)

lemma keeps_ensure_tag_check:
  "keeps hub_tags (ensure_tag tag True inh ext pk kw)"
  "keeps hub_inheritance (ensure_tag tag True inh ext pk kw)"
  "keeps hub_external_repos (ensure_tag tag True inh ext pk kw)"
  "keeps hub_packages (ensure_tag tag True inh ext pk kw)"
  unfolding ensure_tag_def Let_def
  by (auto intro!: keeps_intros keeps_check_mode)

lemma ensure_inheritance_check_of_real:
  assumes run: "ensure_inheritance tag chk tid inh res w = (Inr res', w')"
    and ids: "\<And>n. map_option tag_id (hub_tags v n) = map_option tag_id (hub_tags w n)"
    and cur: "hub_inheritance v tag = hub_inheritance w tag"
  shows "fst (ensure_inheritance tag True tid inh res v) = Inr res'"
proof -
  from ensure_inheritance_Inr [OF run] obtain rules w1 where
    loop: "kfold (inh_step tid) inh [] w = (Inr rules, w1)"
    and res': "res' = (if hub_inheritance w tag = rules then res else add_line (InheritanceIs inh) res)"
    by (auto split: if_splits)
  obtain v1 where vloop: "kfold (inh_step tid) inh [] v = (Inr rules, v1)"
    using inh_loop_ids [of v w tid inh "[]"] ids loop
    by (cases "kfold (inh_step tid) inh [] v") auto
  have "hub_inheritance v1 = hub_inheritance v"
    using keepsD [OF keeps_inh_loop, of hub_inheritance tid inh "[]" v] vloop by simp
  then show ?thesis
    using vloop res' cur
    by (simp add: ensure_inheritance_def kbind_def getInheritanceData_def kreturn_def Let_def)
qed

lemma ensure_external_repos_check_of_real:
  assumes run: "ensure_external_repos tag False repos w = (Inr res', w')"
    and same: "hub_external_repos v tag = hub_external_repos w tag"
    and slot: "set_slot v = set_slot w"
  shows "ensure_external_repos tag True repos v = (Inr res', issue (GetTagExternalRepos tag) v)"
proof -
  let ?cur = "index_repos (hub_external_repos w tag)"
  let ?v1 = "issue (GetTagExternalRepos tag) v"
  let ?rm = "set_minus (set_slot w) (map external_repo_name (hub_external_repos w tag)) (map repo repos)"
  from ensure_external_repos_Inr [OF run] obtain res1 w2 where
    loop: "kfold (repo_step tag False ?cur) repos \<lparr>changed = False, stdout_lines = []\<rparr>
             (issue (GetTagExternalRepos tag) w) = (Inr res1, w2)"
    and rem: "kfold (repo_remove_step tag False) ?rm res1 w2 = (Inr res', w')"
    by blast
  show ?thesis
    using repos_loop_real(2) [OF loop, of ?v1] repo_remove_loop_real(2) [OF rem, of ?v1] same slot
    by (simp add: ensure_external_repos_def Let_def kbind_def getTagExternalRepos_def
        set_difference_def issue_def)
qed

lemma ensure_tag_repos_check_of_real:
  assumes run: "ensure_tag_repos tag False ext res w = (Inr res', w')"
    and same: "hub_external_repos v tag = hub_external_repos w tag"
    and slot: "set_slot v = set_slot w"
  shows "fst (ensure_tag_repos tag True ext res v) = Inr res'"
proof (cases ext)
  case None
  with run show ?thesis by (simp add: ensure_tag_repos_def kreturn_def)
next
  case (Some repos)
  with run obtain rr w1 where
    inner: "ensure_external_repos tag False repos w = (Inr rr, w1)"
    and res': "res' = \<lparr>changed = (if changed rr then True else changed res),
                     stdout_lines = stdout_lines res @ stdout_lines rr\<rparr>"
    by (auto simp: ensure_tag_repos_def kbind_def kreturn_def split: prod.splits sum.splits)
  from ensure_external_repos_check_of_real [OF inner same slot] Some res' show ?thesis
    by (simp add: ensure_tag_repos_def kbind_def kreturn_def)
qed

lemma ensure_package_list_check_of_real:
  assumes run: "ensure_package_list tag False tid packages res w = (Inr res', w')"
    and same: "hub_packages v tid = hub_packages w tid"
    and login: "hub_refuses v Login = hub_refuses w Login"
    and slot: "set_slot v = set_slot w"
  shows "fst (ensure_package_list tag True tid packages res v) = Inr res'"
proof (cases "packages = []")
  case True
  with run show ?thesis by (simp add: ensure_package_list_def kreturn_def)
next
  case False
  let ?names = "set (map package_name (hub_packages w tid))"
  let ?owned = "current_owned_of (hub_packages w tid)"
  let ?v2 = "issue (ListPackages tid) (issue Login v)"
  let ?dn = "set_minus (set_slot w) (map package_name (hub_packages w tid)) (concat (map snd packages))"
  from ensure_package_list_Inr [OF run False] obtain acc w3 where
    ok: "hub_refuses w Login = None"
    and loop: "kfold (owner_step tag False ?names ?owned) packages
        (res, owner_after (hub_packages w tid)) (issue (ListPackages tid) (issue Login w)) = (Inr acc, w3)"
    and rem: "kfold (pkg_remove_step tag False (snd acc)) ?dn (fst acc) w3 = (Inr res', w')"
    by blast
  show ?thesis
    using owner_loop_real(2) [OF loop, of ?v2] pkg_remove_loop_real(2) [OF rem, of "snd acc" ?v2]
      ok login same False slot
    by (simp add: ensure_package_list_def Let_def kbind_def hub_defs set_difference_def)
qed

lemma kbind_fst_Inr: "fst (m w) = Inr x \<Longrightarrow> kbind m f w = f x (snd (m w))"
  by (cases "m w") (simp add: kbind_def)

lemma ensure_tag_existing_Inr:
  assumes "hub_tags w tag = Some ti"
    and "ensure_tag tag chk inh ext pk kw w = (Inr res, w')"
  shows "\<exists>res1 w1 res2 w2 res3 w3.
     ensure_tag_params tag chk ti kw \<lparr>changed = False, stdout_lines = []\<rparr> (issue (GetTag tag) w)
       = (Inr res1, w1) \<and>
     ensure_inheritance tag chk (tag_id ti) inh res1 w1 = (Inr res2, w2) \<and>
     ensure_tag_repos tag chk ext res2 w2 = (Inr res3, w3) \<and>
     ensure_package_list tag chk (tag_id ti) pk res3 w3 = (Inr res, w')"
  using assms unfolding ensure_tag_def Let_def kbind_def
  by (auto simp: getTag_def split: prod.splits sum.splits)

lemma kfold_result:
  assumes "\<And>x acc w acc' w'. body x acc w = (Inr acc', w') \<Longrightarrow> P acc \<Longrightarrow> P acc'"
    and "kfold body xs acc w = (Inr r, w')" and "P acc"
  shows "P r"
  using assms(2,3)
proof (induction xs arbitrary: acc w)
  case Nil
  then show ?case by simp
next
  case (Cons x xs)
  from Cons.prems(1) obtain acc1 w1 where
    s: "body x acc w = (Inr acc1, w1)" and rest: "kfold body xs acc1 w1 = (Inr r, w')"
    by (rule kfold_ConsE)
  from assms(1) [OF s Cons.prems(2)] Cons.IH [OF rest] show ?case by simp
qed

lemma changed_add_line: "changed (add_line m res)"
  by (simp add: add_line_def)

lemma changed_ensure_inheritance:
  "ensure_inheritance tag chk tid inh res w = (Inr res', w') \<Longrightarrow> changed res \<Longrightarrow> changed res'"
  by (auto simp: ensure_inheritance_def Let_def kbind_def kreturn_def add_line_def
      split: prod.splits sum.splits if_splits)

lemma changed_ensure_tag_repos:
  "ensure_tag_repos tag chk ext res w = (Inr res', w') \<Longrightarrow> changed res \<Longrightarrow> changed res'"
  by (auto simp: ensure_tag_repos_def kbind_def kreturn_def split: prod.splits sum.splits option.splits)

lemma changed_pkg_step:
  "pkg_step tag chk names owned ow q res w = (Inr res', w') \<Longrightarrow> changed res \<Longrightarrow> changed res'"
  by (auto simp: pkg_step_def kbind_def kreturn_def add_line_def
      split: prod.splits sum.splits if_splits)

lemma changed_owner_step:
  assumes "owner_step tag chk names owned item acc w = (Inr acc', w')" "changed (fst acc)"
  shows "changed (fst acc')"
proof -
  from assms(1) obtain res1 w1 where
    inner: "kfold (pkg_step tag chk names owned (fst item)) (snd item) (fst acc) w = (Inr res1, w1)"
    and acc': "acc' = (res1, Some (fst item))"
    by (auto simp: owner_step_def kreturn_eq elim!: kbind_InrE)
  have "changed res1"
    by (rule kfold_result [where P = changed, OF _ inner assms(2)]) (rule changed_pkg_step)
  with acc' show ?thesis by simp
qed

lemma changed_pkg_remove_step:
  "pkg_remove_step tag chk ov q res w = (Inr res', w') \<Longrightarrow> changed res'"
  by (auto simp: pkg_remove_step_def Let_def kbind_def kreturn_def add_line_def
      split: prod.splits sum.splits if_splits)

lemma changed_ensure_package_list:
  assumes "ensure_package_list tag chk tid pk res w = (Inr res', w')" "changed res"
  shows "changed res'"
proof (cases "pk = []")
  case True
  with assms show ?thesis by (simp add: ensure_package_list_def kreturn_def)
next
  case False
  from ensure_package_list_Inr [OF assms(1) False] obtain acc w3 where
    loop: "kfold (owner_step tag chk (set (map package_name (hub_packages w tid)))
        (current_owned_of (hub_packages w tid))) pk
        (res, owner_after (hub_packages w tid)) (issue (ListPackages tid) (issue Login w)) = (Inr acc, w3)"
    and rem: "kfold (pkg_remove_step tag chk (snd acc))
        (set_minus (set_slot w) (map package_name (hub_packages w tid)) (concat (map snd pk))) (fst acc) w3
        = (Inr res', w')"
    by blast
  have "changed (fst acc)"
    by (rule kfold_result [where P = "\<lambda>a. changed (fst a)", OF _ loop])
      (auto intro: changed_owner_step assms(2))
  then show ?thesis
    by (rule kfold_result [where P = changed, OF _ rem, rotated])
      (auto intro: changed_pkg_remove_step)
qed

lemma create_tag_changed:
  "create_tag tag kw res w = (Inr created, w') \<Longrightarrow> changed (snd created)"
  by (auto simp: create_tag_def kbind_def kreturn_def add_line_def
      split: prod.splits sum.splits option.splits if_splits)

lemma ensure_tag_created_changed:
  assumes "hub_tags w tag = None" "ensure_tag tag False inh ext pk kw w = (Inr res, w')"
  shows "changed res"
proof -
  from assms obtain created w1 res2 w2 res3 w3 where
    c: "create_tag tag kw \<lparr>changed = False, stdout_lines = []\<rparr> (issue (GetTag tag) w)
          = (Inr created, w1)"
    and i: "ensure_inheritance tag False (fst created) inh (snd created) w1 = (Inr res2, w2)"
    and r: "ensure_tag_repos tag False ext res2 w2 = (Inr res3, w3)"
    and p: "ensure_package_list tag False (fst created) pk res3 w3 = (Inr res, w')"
    unfolding ensure_tag_def Let_def kbind_def
    by (auto simp: getTag_def split: prod.splits sum.splits)
  from create_tag_changed [OF c] changed_ensure_inheritance [OF i] changed_ensure_tag_repos [OF r]
    changed_ensure_package_list [OF p]
  show ?thesis by blast
qed

lemma ensure_tag_check_of_real:
  assumes tag: "hub_tags w tag = Some ti"
    and run: "ensure_tag tag False inh ext pk kw w = (Inr res, w')"
  shows "fst (ensure_tag tag True inh ext pk kw w) = Inr res"
proof -
  let ?w0 = "issue (GetTag tag) w"
  let ?res0 = "\<lparr>changed = False, stdout_lines = []\<rparr>"
  let ?tid = "tag_id ti"
  from ensure_tag_existing_Inr [OF tag run] obtain res1 w1 res2 w2 res3 w3 where
    p: "ensure_tag_params tag False ti kw ?res0 ?w0 = (Inr res1, w1)"
    and i: "ensure_inheritance tag False ?tid inh res1 w1 = (Inr res2, w2)"
    and r: "ensure_tag_repos tag False ext res2 w2 = (Inr res3, w3)"
    and q: "ensure_package_list tag False ?tid pk res3 w3 = (Inr res, w')"
    by blast
  text \<open>what the real run has left of the hub at each point\<close>
  have w1_kept: "hub_inheritance w1 = hub_inheritance ?w0" "hub_external_repos w1 = hub_external_repos ?w0"
    "hub_packages w1 = hub_packages ?w0" "hub_refuses w1 = hub_refuses ?w0"
    using keeps_ensure_tag_params [of tag False ti kw ?res0, THEN keepsD, of ?w0] p by simp_all
  have w1_slot: "set_slot w1 = set_slot ?w0"
    using keeps_set_slot_phases(1) [of tag False ti kw ?res0, THEN keepsD, of ?w0] p by simp
  have w2_slot: "set_slot w2 = set_slot w1"
    using keeps_set_slot_phases(3) [of tag False ?tid inh res1, THEN keepsD, of w1] i by simp
  have w3_slot: "set_slot w3 = set_slot w2"
    using keeps_set_slot_phases(5) [of tag False ext res2, THEN keepsD, of w2] r by simp
  have w1_ids: "map_option tag_id (hub_tags ?w0 n) = map_option tag_id (hub_tags w1 n)" for n
  proof (cases "tag_edits ti kw = no_edits")
    case True
    with p show ?thesis by (simp add: ensure_tag_params_none)
  next
    case False
    from ensure_tag_params_Inr [OF p False] tag show ?thesis
      by (auto simp: issue_def apply_edits_def)
  qed
  have w2_kept: "hub_external_repos w2 = hub_external_repos w1"
    "hub_packages w2 = hub_packages w1" "hub_refuses w2 = hub_refuses w1"
    using keeps_ensure_inheritance [of tag False ?tid inh res1, THEN keepsD, of w1] i by simp_all
  have w3_kept: "hub_packages w3 = hub_packages w2" "hub_refuses w3 = hub_refuses w2"
    using keeps_ensure_tag_repos [of tag False ext res2, THEN keepsD, of w2] r by simp_all
  text \<open>the run in check mode\<close>
  have p': "ensure_tag_params tag True ti kw ?res0 ?w0 = (Inr res1, ?w0)"
  proof (cases "tag_edits ti kw = no_edits")
    case True
    with p show ?thesis by (simp add: ensure_tag_params_none)
  next
    case False
    from ensure_tag_params_Inr [OF p False] False show ?thesis
      by (auto simp: ensure_tag_params_check)
  qed
  define v2 where "v2 = snd (ensure_inheritance tag True ?tid inh res1 ?w0)"
  have i': "fst (ensure_inheritance tag True ?tid inh res1 ?w0) = Inr res2"
    using ensure_inheritance_check_of_real [OF i w1_ids] w1_kept(1) by simp
  have v2_kept: "hub_external_repos v2 = hub_external_repos ?w0"
    "hub_packages v2 = hub_packages ?w0" "hub_refuses v2 = hub_refuses ?w0"
    "set_slot v2 = set_slot ?w0"
    unfolding v2_def
    using keeps_ensure_inheritance [of tag True ?tid inh res1, THEN keepsD, of ?w0]
      keeps_set_slot_phases(3) [of tag True ?tid inh res1, THEN keepsD, of ?w0] by simp_all
  define v3 where "v3 = snd (ensure_tag_repos tag True ext res2 v2)"
  have r': "fst (ensure_tag_repos tag True ext res2 v2) = Inr res3"
    using ensure_tag_repos_check_of_real [OF r, of v2] v2_kept(1,4) w2_kept(1) w1_kept(2)
      w1_slot w2_slot by simp
  have v3_kept: "hub_packages v3 = hub_packages v2" "hub_refuses v3 = hub_refuses v2"
    "set_slot v3 = set_slot v2"
    unfolding v3_def
    using keeps_ensure_tag_repos [of tag True ext res2, THEN keepsD, of v2]
      keeps_set_slot_phases(5) [of tag True ext res2, THEN keepsD, of v2] by simp_all
  have q': "fst (ensure_package_list tag True ?tid pk res3 v3) = Inr res"
    using ensure_package_list_check_of_real [OF q, of v3]
      v3_kept v2_kept w3_kept w2_kept w1_kept w1_slot w2_slot w3_slot by simp
  have g: "getTag tag w = (Inr (Some ti), ?w0)"
    using tag by (simp add: getTag_def)
  have "ensure_tag tag True inh ext pk kw w
      = kbind (ensure_tag_params tag True ti kw ?res0) (\<lambda>result.
          kbind (ensure_inheritance tag True ?tid inh result) (\<lambda>result.
            kbind (ensure_tag_repos tag True ext result) (\<lambda>result.
              ensure_package_list tag True ?tid pk result))) ?w0"
    unfolding ensure_tag_def by (simp add: kbind_Inr [where m = "getTag tag" and w = w, OF g] Let_def)
  also have "\<dots> = kbind (ensure_inheritance tag True ?tid inh res1) (\<lambda>result.
            kbind (ensure_tag_repos tag True ext result) (\<lambda>result.
              ensure_package_list tag True ?tid pk result)) ?w0"
    by (simp add: kbind_Inr [where m = "ensure_tag_params tag True ti kw ?res0" and w = ?w0, OF p'])
  also have "\<dots> = kbind (ensure_tag_repos tag True ext res2) (\<lambda>result.
              ensure_package_list tag True ?tid pk result) v2"
    using kbind_fst_Inr [where m = "ensure_inheritance tag True ?tid inh res1" and w = ?w0, OF i']
    by (simp add: v2_def)
  also have "\<dots> = ensure_package_list tag True ?tid pk res3 v3"
    using kbind_fst_Inr [where m = "ensure_tag_repos tag True ext res2" and w = v2, OF r']
    by (simp add: v3_def)
  finally have "ensure_tag tag True inh ext pk kw w
      = ensure_package_list tag True ?tid pk res3 v3" .
  with q' show ?thesis by simp
qed

lemma ensure_tag_check_missing:
  "hub_tags w tag = None \<Longrightarrow>
     ensure_tag tag True inh ext pk kw w
       = (Inr \<lparr>changed = True, stdout_lines = [WouldCreateTag tag]\<rparr>, issue (GetTag tag) w)"
  by (simp add: ensure_tag_def getTag_def kbind_def kreturn_def add_line_def)

lemma koji_cg_ignores_check_mode:
  "koji_cg_run_module True cg user state = koji_cg_run_module False cg user state"
  by (simp add: koji_cg_run_module_def)

lemma koji_cg_check_mode_grants:
  "filter mutating (issued (koji_cg_run_module True cg user ''present'') w)
     = [GrantCGAccess user cg]"
  using grant_issued [of user cg w]
  by (auto simp: issued_def koji_cg_run_module_def kcatch_def kbind_def kreturn_def kraise_def
      split: prod.splits sum.splits exn.splits)

lemma createTag_Inr:
  assumes "createTag tag a w = (Inr i, w')"
  shows "hub_tags w tag = None \<and> i = hub_next_id w \<and>
     hub_tags w' = (hub_tags w)(tag \<mapsto> new_tag (hub_perms w) i a)"
  using assms by (auto simp: createTag_def hub_call_def issue_def split: option.splits)

lemma create_tag_tags:
  assumes run: "create_tag tag kw res w = (Inr created, w')"
  shows "\<exists>ti'. hub_tags w' = (hub_tags w)(tag \<mapsto> ti') \<and> tag_id ti' = fst created \<and>
           snd created = add_line (CreatedTagId (fst created)) res"
proof -
  let ?resolve = "case perm kw of
                Some l \<Rightarrow>
                  if l \<noteq> [] then kbind (get_perm_id l) (\<lambda>i. kreturn (Some (PermId i)))
                  else kreturn (Some (PermLabel l))
              | None \<Rightarrow> kreturn None"
  from run obtain u w1 where login: "ensure_logged_in w = (Inr u, w1)"
    and rest1: "kbind ?resolve (\<lambda>p.
         kbind (createTag tag
                  \<lparr>c_arches = arches kw, c_perm = p, c_locked = locked kw,
                   c_maven_support = maven_support kw,
                   c_maven_include_all = maven_include_all kw,
                   c_extra = extra kw\<rparr>) (\<lambda>new_id.
           kreturn (new_id, add_line (CreatedTagId new_id) res))) w1 = (Inr created, w')"
    unfolding create_tag_def by (erule kbind_InrE)
  from login have w1: "hub_tags w1 = hub_tags w" by (simp add: ensure_logged_in_Inr issue_def)
  from rest1 obtain p w2 where
    resolve: "?resolve w1 = (Inr p, w2)"
    and rest2: "kbind (createTag tag
                  \<lparr>c_arches = arches kw, c_perm = p, c_locked = locked kw,
                   c_maven_support = maven_support kw,
                   c_maven_include_all = maven_include_all kw,
                   c_extra = extra kw\<rparr>) (\<lambda>new_id.
           kreturn (new_id, add_line (CreatedTagId new_id) res)) w2 = (Inr created, w')"
    by (erule kbind_InrE)
  have "keeps hub_tags ?resolve" by (auto intro!: keeps_intros)
  from keepsD [OF this, of w1] resolve have w2: "hub_tags w2 = hub_tags w1" by simp
  let ?a = "\<lparr>c_arches = arches kw, c_perm = p, c_locked = locked kw,
                   c_maven_support = maven_support kw,
                   c_maven_include_all = maven_include_all kw,
                   c_extra = extra kw\<rparr>"
  from rest2 obtain i where c: "createTag tag ?a w2 = (Inr i, w')"
    and created: "created = (i, add_line (CreatedTagId i) res)"
    by (auto simp: kreturn_eq elim!: kbind_InrE)
  have "hub_tags w' = (hub_tags w)(tag \<mapsto> new_tag (hub_perms w2) i ?a)"
    using createTag_Inr [OF c] w1 w2 by simp
  moreover have "tag_id (new_tag (hub_perms w2) i ?a) = fst created"
    using created by (simp add: new_tag_def)
  ultimately show ?thesis using created by auto
qed

lemma ensure_tag_created_Inr:
  assumes "hub_tags w tag = None"
    and "ensure_tag tag False inh ext pk kw w = (Inr res, w')"
  shows "\<exists>created w1 res2 w2 res3 w3.
     create_tag tag kw \<lparr>changed = False, stdout_lines = []\<rparr> (issue (GetTag tag) w)
       = (Inr created, w1) \<and>
     ensure_inheritance tag False (fst created) inh (snd created) w1 = (Inr res2, w2) \<and>
     ensure_tag_repos tag False ext res2 w2 = (Inr res3, w3) \<and>
     ensure_package_list tag False (fst created) pk res3 w3 = (Inr res, w')"
  using assms unfolding ensure_tag_def Let_def kbind_def
  by (auto simp: getTag_def split: prod.splits sum.splits)

lemma tag_id_apply_edits: "tag_id (apply_edits es ti) = tag_id ti"
  by (simp add: apply_edits_def)

lemma ensure_tag_params_tags:
  assumes p: "ensure_tag_params tag chk ti kw res w = (Inr res1, w1)"
    and tag: "hub_tags w tag = Some ti"
  shows "\<exists>tj. hub_tags w1 tag = Some tj \<and> tag_id tj = tag_id ti"
proof (cases "chk \<or> tag_edits ti kw = no_edits")
  case True
  then have "w1 = w"
    using p ensure_tag_params_none [of ti kw tag chk res w]
      ensure_tag_params_check [of ti kw tag res w] by (cases chk) auto
  with tag show ?thesis by simp
next
  case False
  then have "ensure_tag_params tag False ti kw res w = (Inr res1, w1)" using p by simp
  from ensure_tag_params_Inr [OF this] False tag show ?thesis
    by (auto simp: tag_id_apply_edits)
qed

lemma ensure_tag_sections:
  assumes run: "ensure_tag tag chk inh ext pk kw w = (Inr res, w')"
    and mode: "chk \<longrightarrow> hub_tags w tag \<noteq> None"
  shows "\<exists>ti2 res2 w2 res3 w3 cs.
     trace w2 = trace w @ cs \<and> list_all other_call cs \<and>
     hub_tags w2 tag = Some ti2 \<and>
     (\<forall>ti. hub_tags w tag = Some ti \<longrightarrow> tag_id ti2 = tag_id ti) \<and>
     hub_external_repos w2 = hub_external_repos w \<and> hub_packages w2 = hub_packages w \<and>
     set_slot w2 = set_slot w \<and> hub_refuses w2 = hub_refuses w \<and>
     ensure_tag_repos tag chk ext res2 w2 = (Inr res3, w3) \<and>
     ensure_package_list tag chk (tag_id ti2) pk res3 w3 = (Inr res, w')"
proof (cases "hub_tags w tag")
  case None
  let ?w0 = "issue (GetTag tag) w"
  let ?res0 = "\<lparr>changed = False, stdout_lines = []\<rparr>"
  from None mode have real: "chk = False" by simp
  from run have "ensure_tag tag False inh ext pk kw w = (Inr res, w')"
    unfolding real .
  from ensure_tag_created_Inr [OF None this] obtain created w1 res2 w2 res3 w3 where
    c: "create_tag tag kw ?res0 ?w0 = (Inr created, w1)"
    and i: "ensure_inheritance tag chk (fst created) inh (snd created) w1 = (Inr res2, w2)"
    and r: "ensure_tag_repos tag chk ext res2 w2 = (Inr res3, w3)"
    and q: "ensure_package_list tag chk (fst created) pk res3 w3 = (Inr res, w')"
    unfolding real by blast
  from create_tag_tags [OF c] obtain ti' where
    ti': "hub_tags w1 = (hub_tags ?w0)(tag \<mapsto> ti')" "tag_id ti' = fst created" by blast
  have k1: "hub_external_repos w1 = hub_external_repos ?w0" "hub_packages w1 = hub_packages ?w0"
    "hub_refuses w1 = hub_refuses ?w0" "set_slot w1 = set_slot ?w0"
    using keeps_create_tag [of tag kw ?res0, THEN keepsD, of ?w0]
      keeps_set_slot_phases(2) [of tag kw ?res0, THEN keepsD, of ?w0] c by simp_all
  have k2: "hub_external_repos w2 = hub_external_repos w1" "hub_packages w2 = hub_packages w1"
    "hub_refuses w2 = hub_refuses w1" "set_slot w2 = set_slot w1" "hub_tags w2 = hub_tags w1"
    using keeps_ensure_inheritance [of tag chk "fst created" inh "snd created", THEN keepsD, of w1]
      keeps_set_slot_phases(3) [of tag chk "fst created" inh "snd created", THEN keepsD, of w1] i
    by simp_all
  obtain cs1 where cs1: "trace w1 = trace ?w0 @ cs1" "list_all other_call cs1"
    using sendsD [OF sends_create_tag [of other_call tag kw ?res0], of ?w0] c
    by (auto simp: other_call_def)
  obtain cs2 where cs2: "trace w2 = trace w1 @ cs2" "list_all other_call cs2"
    using sendsD [OF sends_ensure_inheritance [of other_call tag chk "fst created" inh "snd created"],
        of w1] i
    by (auto simp: other_call_def)
  have tr: "trace w2 = trace w @ (GetTag tag # cs1 @ cs2)"
    "list_all other_call (GetTag tag # cs1 @ cs2)"
    using cs1 cs2 by (simp_all add: issue_def other_call_def)
  have tg: "hub_tags w2 tag = Some ti'" using ti' k2 by simp
  have q': "ensure_package_list tag chk (tag_id ti') pk res3 w3 = (Inr res, w')"
    using q ti'(2) by simp
  have kept: "hub_external_repos w2 = hub_external_repos w" "hub_packages w2 = hub_packages w"
    "set_slot w2 = set_slot w" "hub_refuses w2 = hub_refuses w"
    using k1 k2 by (simp_all add: issue_def)
  show ?thesis
    apply (rule exI [of _ ti'], rule exI [of _ res2], rule exI [of _ w2])
    apply (rule exI [of _ res3], rule exI [of _ w3], rule exI [of _ "GetTag tag # cs1 @ cs2"])
    using tr tg q' kept r None by simp
next
  case (Some ti)
  let ?w0 = "issue (GetTag tag) w"
  let ?res0 = "\<lparr>changed = False, stdout_lines = []\<rparr>"
  from ensure_tag_existing_Inr [OF Some run] obtain res1 w1 res2 w2 res3 w3 where
    p: "ensure_tag_params tag chk ti kw ?res0 ?w0 = (Inr res1, w1)"
    and i: "ensure_inheritance tag chk (tag_id ti) inh res1 w1 = (Inr res2, w2)"
    and r: "ensure_tag_repos tag chk ext res2 w2 = (Inr res3, w3)"
    and q: "ensure_package_list tag chk (tag_id ti) pk res3 w3 = (Inr res, w')"
    by blast
  have "hub_tags ?w0 tag = Some ti" using Some by (simp add: issue_def)
  from ensure_tag_params_tags [OF p this] obtain tj where
    tj: "hub_tags w1 tag = Some tj" "tag_id tj = tag_id ti" by blast
  have k1: "hub_external_repos w1 = hub_external_repos ?w0" "hub_packages w1 = hub_packages ?w0"
    "hub_refuses w1 = hub_refuses ?w0" "set_slot w1 = set_slot ?w0"
    using keeps_ensure_tag_params [of tag chk ti kw ?res0, THEN keepsD, of ?w0]
      keeps_set_slot_phases(1) [of tag chk ti kw ?res0, THEN keepsD, of ?w0] p by simp_all
  have k2: "hub_external_repos w2 = hub_external_repos w1" "hub_packages w2 = hub_packages w1"
    "hub_refuses w2 = hub_refuses w1" "set_slot w2 = set_slot w1" "hub_tags w2 = hub_tags w1"
    using keeps_ensure_inheritance [of tag chk "tag_id ti" inh res1, THEN keepsD, of w1]
      keeps_set_slot_phases(3) [of tag chk "tag_id ti" inh res1, THEN keepsD, of w1] i
    by simp_all
  obtain cs1 where cs1: "trace w1 = trace ?w0 @ cs1" "list_all other_call cs1"
    using sendsD [OF sends_ensure_tag_params [of chk other_call tag ti kw ?res0], of ?w0] p
    by (auto simp: other_call_def)
  obtain cs2 where cs2: "trace w2 = trace w1 @ cs2" "list_all other_call cs2"
    using sendsD [OF sends_ensure_inheritance [of other_call tag chk "tag_id ti" inh res1], of w1] i
    by (auto simp: other_call_def)
  have tr: "trace w2 = trace w @ (GetTag tag # cs1 @ cs2)"
    "list_all other_call (GetTag tag # cs1 @ cs2)"
    using cs1 cs2 by (simp_all add: issue_def other_call_def)
  have tg: "hub_tags w2 tag = Some tj" using tj k2 by simp
  have q': "ensure_package_list tag chk (tag_id tj) pk res3 w3 = (Inr res, w')"
    using q tj(2) by simp
  have kept: "hub_external_repos w2 = hub_external_repos w" "hub_packages w2 = hub_packages w"
    "set_slot w2 = set_slot w" "hub_refuses w2 = hub_refuses w"
    using k1 k2 by (simp_all add: issue_def)
  show ?thesis
    apply (rule exI [of _ tj], rule exI [of _ res2], rule exI [of _ w2])
    apply (rule exI [of _ res3], rule exI [of _ w3], rule exI [of _ "GetTag tag # cs1 @ cs2"])
    using tr tg q' kept r Some tj(2) by simp
qed

lemma ensure_tag_calls:
  assumes run: "ensure_tag tag chk inh ext pk kw w = (Inr res, w')"
    and mode: "chk \<longrightarrow> hub_tags w tag \<noteq> None"
  shows "\<exists>ti2 res2 w2 res3 w3 cs.
     list_all other_call cs \<and>
     hub_tags w2 tag = Some ti2 \<and> hub_tags w3 tag = Some ti2 \<and> hub_tags w' tag = Some ti2 \<and>
     (\<forall>ti. hub_tags w tag = Some ti \<longrightarrow> tag_id ti2 = tag_id ti) \<and>
     hub_external_repos w2 = hub_external_repos w \<and> set_slot w2 = set_slot w \<and>
     hub_packages w3 = hub_packages w \<and> set_slot w3 = set_slot w \<and>
     hub_external_repos w' = hub_external_repos w3 \<and>
     ensure_tag_repos tag chk ext res2 w2 = (Inr res3, w3) \<and>
     ensure_package_list tag chk (tag_id ti2) pk res3 w3 = (Inr res, w') \<and>
     issued (ensure_tag tag chk inh ext pk kw) w
       = cs @ issued (ensure_tag_repos tag chk ext res2) w2
            @ issued (ensure_package_list tag chk (tag_id ti2) pk res3) w3"
proof -
  from ensure_tag_sections [OF run mode] obtain ti2 res2 w2 res3 w3 cs where
    tr: "trace w2 = trace w @ cs" and cs: "list_all other_call cs"
    and tg: "hub_tags w2 tag = Some ti2"
    and ids: "\<forall>ti. hub_tags w tag = Some ti \<longrightarrow> tag_id ti2 = tag_id ti"
    and kept: "hub_external_repos w2 = hub_external_repos w" "hub_packages w2 = hub_packages w"
      "set_slot w2 = set_slot w"
    and r: "ensure_tag_repos tag chk ext res2 w2 = (Inr res3, w3)"
    and q: "ensure_package_list tag chk (tag_id ti2) pk res3 w3 = (Inr res, w')"
    by blast
  have k3: "hub_tags w3 = hub_tags w2" "hub_packages w3 = hub_packages w2" "set_slot w3 = set_slot w2"
    using keeps_ensure_tag_repos [of tag chk ext res2, THEN keepsD, of w2]
      keeps_set_slot_phases(5) [of tag chk ext res2, THEN keepsD, of w2] r by simp_all
  have k4: "hub_tags w' = hub_tags w3" "hub_external_repos w' = hub_external_repos w3"
    using keeps_ensure_package_list [of tag chk "tag_id ti2" pk res3, THEN keepsD, of w3] q
    by simp_all
  have "sends (\<lambda>c. True) (ensure_tag_repos tag chk ext res2)"
    by (rule sends_ensure_tag_repos) simp_all
  from issued_sends(1) [OF this, of w2] r
  have t3: "trace w3 = trace w2 @ issued (ensure_tag_repos tag chk ext res2) w2" by simp
  have "sends (\<lambda>c. True) (ensure_package_list tag chk (tag_id ti2) pk res3)"
    by (rule sends_ensure_package_list) simp_all
  from issued_sends(1) [OF this, of w3] q
  have t4: "trace w' = trace w3 @ issued (ensure_package_list tag chk (tag_id ti2) pk res3) w3"
    by simp
  have iss: "issued (ensure_tag tag chk inh ext pk kw) w
       = cs @ issued (ensure_tag_repos tag chk ext res2) w2
            @ issued (ensure_package_list tag chk (tag_id ti2) pk res3) w3"
    using run by (simp add: issued_def t4 t3 tr)
  show ?thesis
    apply (rule exI [of _ ti2], rule exI [of _ res2], rule exI [of _ w2])
    apply (rule exI [of _ res3], rule exI [of _ w3], rule exI [of _ cs])
    using cs tg ids kept r q k3 k4 iss by simp
qed

lemma other_call_filters:
  assumes "list_all other_call cs"
  shows "filter pkg_remove_call cs = []" "filter (reassigns_pkg q) cs = []"
    "filter (adds_or_removes_pkg q) cs = []" "filter (edits_repo n) cs = []"
    "filter (adds_or_removes_repo n) cs = []" "filter (\<lambda>c. repo_call c \<and> mutating c) cs = []"
proof -
  have "\<not> pkg_remove_call c \<and> \<not> reassigns_pkg q c \<and> \<not> adds_or_removes_pkg q c \<and>
      \<not> edits_repo n c \<and> \<not> adds_or_removes_repo n c \<and> \<not> (repo_call c \<and> mutating c)"
    if "other_call c" for c
    using that by (cases c) (simp_all add: other_call_def)
  with assms show "filter pkg_remove_call cs = []" "filter (reassigns_pkg q) cs = []"
    "filter (adds_or_removes_pkg q) cs = []" "filter (edits_repo n) cs = []"
    "filter (adds_or_removes_repo n) cs = []" "filter (\<lambda>c. repo_call c \<and> mutating c) cs = []"
    by (simp_all add: filter_empty_conv list_all_iff)
qed

lemma repo_section_filters:
  "filter pkg_remove_call (issued (ensure_tag_repos tag chk ext res) w) = []"
  "filter (reassigns_pkg q) (issued (ensure_tag_repos tag chk ext res) w) = []"
  "filter (adds_or_removes_pkg q) (issued (ensure_tag_repos tag chk ext res) w) = []"
proof -
  have "sends (\<lambda>c. \<not> pkg_call c) (ensure_tag_repos tag chk ext res)"
    by (rule sends_ensure_tag_repos) simp_all
  from issued_sends(2) [OF this, of w]
  have a: "list_all (\<lambda>c. \<not> pkg_call c) (issued (ensure_tag_repos tag chk ext res) w)" .
  have "\<not> pkg_remove_call c \<and> \<not> reassigns_pkg q c \<and> \<not> adds_or_removes_pkg q c"
    if "\<not> pkg_call c" for c
    using that by (cases c) simp_all
  with a show "filter pkg_remove_call (issued (ensure_tag_repos tag chk ext res) w) = []"
    "filter (reassigns_pkg q) (issued (ensure_tag_repos tag chk ext res) w) = []"
    "filter (adds_or_removes_pkg q) (issued (ensure_tag_repos tag chk ext res) w) = []"
    by (simp_all add: filter_empty_conv list_all_iff)
qed

lemma pkg_section_filters:
  "filter (edits_repo n) (issued (ensure_package_list tag chk tid pk res) w) = []"
  "filter (adds_or_removes_repo n) (issued (ensure_package_list tag chk tid pk res) w) = []"
  "filter (\<lambda>c. repo_call c \<and> mutating c) (issued (ensure_package_list tag chk tid pk res) w) = []"
proof -
  have "sends (\<lambda>c. \<not> repo_call c) (ensure_package_list tag chk tid pk res)"
    by (rule sends_ensure_package_list) simp_all
  from issued_sends(2) [OF this, of w]
  have a: "list_all (\<lambda>c. \<not> repo_call c) (issued (ensure_package_list tag chk tid pk res) w)" .
  have "\<not> edits_repo n c \<and> \<not> adds_or_removes_repo n c \<and> \<not> (repo_call c \<and> mutating c)"
    if "\<not> repo_call c" for c
    using that by (cases c) simp_all
  with a show "filter (edits_repo n) (issued (ensure_package_list tag chk tid pk res) w) = []"
    "filter (adds_or_removes_repo n) (issued (ensure_package_list tag chk tid pk res) w) = []"
    "filter (\<lambda>c. repo_call c \<and> mutating c) (issued (ensure_package_list tag chk tid pk res) w) = []"
    by (simp_all add: filter_empty_conv list_all_iff)
qed

lemma owner_calls_pairs:
  "concat (map (owner_calls tag names owned) packages)
     = concat (map (\<lambda>d. pkg_calls tag names owned (fst d) (snd d)) (declared_pairs packages))"
proof (induction packages)
  case Nil
  show ?case by (simp add: declared_pairs_def)
next
  case (Cons item packages)
  have "owner_calls tag names owned item
      = concat (map (\<lambda>d. pkg_calls tag names owned (fst d) (snd d)) (map (Pair (fst item)) (snd item)))"
    by (simp add: owner_calls_def comp_def)
  with Cons show ?case by (simp add: declared_pairs_def)
qed

lemma pair_calls_reassign:
  assumes "q \<in> names"
  shows "filter (reassigns_pkg q) (concat (map (\<lambda>d. pkg_calls tag names owned (fst d) (snd d)) pairs))
     = map (PackageListSetOwner tag q)
         (map fst (filter (\<lambda>d. snd d = q \<and> q \<notin> owned (fst d)) pairs))"
  using assms by (induction pairs) (auto simp: pkg_calls_def)

lemma pair_calls_no_remove:
  "filter pkg_remove_call (concat (map (\<lambda>d. pkg_calls tag names owned (fst d) (snd d)) pairs)) = []"
  by (induction pairs) (auto simp: pkg_calls_def)

lemma pair_calls_no_add:
  assumes "q \<in> names"
  shows "filter (adds_or_removes_pkg q)
           (concat (map (\<lambda>d. pkg_calls tag names owned (fst d) (snd d)) pairs)) = []"
  using assms by (induction pairs) (auto simp: pkg_calls_def)

lemma ensure_package_list_issued:
  assumes run: "ensure_package_list tag False tid packages res w = (Inr res', w')"
    and ne: "packages \<noteq> []"
  shows "issued (ensure_package_list tag False tid packages res) w
     = [Login, ListPackages tid]
       @ concat (map (\<lambda>d. pkg_calls tag (package_name ` set (hub_packages w tid))
                             (current_owned_of (hub_packages w tid)) (fst d) (snd d))
                   (declared_pairs packages))
       @ map (\<lambda>q. PackageListRemove tag q (fst (last packages)))
           (set_minus (set_slot w) (map package_name (hub_packages w tid))
              (concat (map snd packages)))"
  using ensure_package_list_real(1) [OF run ne] run
  by (simp add: issued_def owner_calls_pairs)

lemma ensure_package_list_removes:
  assumes run: "ensure_package_list tag False tid packages res w = (Inr res', w')"
    and ne: "packages \<noteq> []"
  shows "filter pkg_remove_call (issued (ensure_package_list tag False tid packages res) w)
     = map (\<lambda>q. PackageListRemove tag q (fst (last packages)))
         (set_minus (set_slot w) (map package_name (hub_packages w tid))
            (concat (map snd packages)))"
  by (simp add: ensure_package_list_issued [OF run ne] pair_calls_no_remove filter_map comp_def)

lemma ensure_package_list_reassigns:
  assumes run: "ensure_package_list tag False tid packages res w = (Inr res', w')"
    and decl: "q \<in> set (concat (map snd packages))"
    and present: "q \<in> package_name ` set (hub_packages w tid)"
  shows "filter (reassigns_pkg q) (issued (ensure_package_list tag False tid packages res) w)
           = map (PackageListSetOwner tag q) (new_owners (hub_packages w tid) packages q)"
    and "filter (adds_or_removes_pkg q) (issued (ensure_package_list tag False tid packages res) w)
           = []"
proof -
  have ne: "packages \<noteq> []" using decl by auto
  let ?dn = "set_minus (set_slot w) (map package_name (hub_packages w tid))
              (concat (map snd packages))"
  have "q \<notin> set ?dn" using decl by simp
  then have rm: "filter (adds_or_removes_pkg q)
      (map (\<lambda>q. PackageListRemove tag q (fst (last packages))) ?dn) = []"
    by (auto simp: filter_empty_conv)
  have rm2: "filter (reassigns_pkg q)
      (map (\<lambda>q. PackageListRemove tag q (fst (last packages))) ?dn) = []"
    by (auto simp: filter_empty_conv)
  show "filter (reassigns_pkg q) (issued (ensure_package_list tag False tid packages res) w)
           = map (PackageListSetOwner tag q) (new_owners (hub_packages w tid) packages q)"
    using rm2 by (simp add: ensure_package_list_issued [OF run ne] pair_calls_reassign [OF present]
        new_owners_def)
  show "filter (adds_or_removes_pkg q) (issued (ensure_package_list tag False tid packages res) w)
           = []"
    using rm by (simp add: ensure_package_list_issued [OF run ne] pair_calls_no_add [OF present])
qed

lemma filter_declared_once:
  assumes "filter (\<lambda>d. snd d = q) pairs = [(ow, q)]" "q \<notin> owned ow"
  shows "map fst (filter (\<lambda>d. snd d = q \<and> q \<notin> owned (fst d)) pairs) = [ow]"
proof -
  have "filter (\<lambda>d. snd d = q \<and> q \<notin> owned (fst d)) pairs
      = filter (\<lambda>d. q \<notin> owned (fst d)) (filter (\<lambda>d. snd d = q) pairs)"
    by (simp add: conj_commute)
  with assms show ?thesis by simp
qed

lemma ensure_tag_repos_Some:
  assumes "ensure_tag_repos tag chk (Some repos) res w = (Inr res', w')"
  shows "\<exists>rr. ensure_external_repos tag chk repos w = (Inr rr, w')"
    and "issued (ensure_tag_repos tag chk (Some repos) res) w
           = issued (ensure_external_repos tag chk repos) w"
  using assms
  by (auto simp: ensure_tag_repos_def kbind_def kreturn_def issued_def
      split: prod.splits sum.splits)

lemma repo_calls_edits:
  assumes "current n = Some c"
  shows "filter (edits_repo n) (concat (map (repo_calls tag current) repos))
     = map (\<lambda>d. EditTagExternalRepo tag n (repo_priority d))
         (filter (\<lambda>d. repo d = n \<and> repo_priority d \<noteq> ext_priority c) repos)"
  using assms by (induction repos) (auto simp: repo_calls_def split: option.splits)

lemma repo_calls_no_adds:
  assumes "current n = Some c"
  shows "filter (adds_or_removes_repo n) (concat (map (repo_calls tag current) repos)) = []"
  using assms by (induction repos) (auto simp: repo_calls_def split: option.splits)

lemma repo_removes_filters:
  "filter (edits_repo n) (concat (map (\<lambda>m. [Login, RemoveExternalRepoFromTag tag m]) ns)) = []"
  "n \<notin> set ns \<Longrightarrow>
     filter (adds_or_removes_repo n)
       (concat (map (\<lambda>m. [Login, RemoveExternalRepoFromTag tag m]) ns)) = []"
  "filter (\<lambda>c. repo_call c \<and> mutating c)
     (concat (map (\<lambda>m. [Login, RemoveExternalRepoFromTag tag m]) ns))
     = map (RemoveExternalRepoFromTag tag) ns"
  by (induction ns) auto

lemma ensure_external_repos_issued:
  assumes run: "ensure_external_repos tag False repos w = (Inr res', w')"
  shows "issued (ensure_external_repos tag False repos) w
     = [GetTagExternalRepos tag]
       @ concat (map (repo_calls tag (index_repos (hub_external_repos w tag))) repos)
       @ concat (map (\<lambda>n. [Login, RemoveExternalRepoFromTag tag n])
           (set_minus (set_slot w) (map external_repo_name (hub_external_repos w tag))
              (map repo repos)))"
  using ensure_external_repos_real(1) [OF run] run by (simp add: issued_def)

lemma ensure_external_repos_edits:
  assumes run: "ensure_external_repos tag False repos w = (Inr res', w')"
    and decl: "n \<in> repo ` set repos"
    and bound: "index_repos (hub_external_repos w tag) n = Some cur"
  shows "filter (edits_repo n) (issued (ensure_external_repos tag False repos) w)
           = map (\<lambda>d. EditTagExternalRepo tag n (repo_priority d))
               (filter (\<lambda>d. repo d = n \<and> repo_priority d \<noteq> ext_priority cur) repos)"
    and "filter (adds_or_removes_repo n) (issued (ensure_external_repos tag False repos) w) = []"
proof -
  let ?rm = "set_minus (set_slot w) (map external_repo_name (hub_external_repos w tag))
              (map repo repos)"
  have "n \<notin> set ?rm" using decl by simp
  note rm = repo_removes_filters(1) [of n tag ?rm] repo_removes_filters(2) [OF this, of tag]
  show "filter (edits_repo n) (issued (ensure_external_repos tag False repos) w)
           = map (\<lambda>d. EditTagExternalRepo tag n (repo_priority d))
               (filter (\<lambda>d. repo d = n \<and> repo_priority d \<noteq> ext_priority cur) repos)"
    using rm(1) bound by (simp add: ensure_external_repos_issued [OF run] repo_calls_edits)
  show "filter (adds_or_removes_repo n) (issued (ensure_external_repos tag False repos) w) = []"
    using rm(2) bound by (simp add: ensure_external_repos_issued [OF run] repo_calls_no_adds)
qed

lemma ensure_external_repos_empty:
  assumes run: "ensure_external_repos tag False [] w = (Inr res', w')"
  shows "hub_external_repos w' tag = []"
    and "filter (\<lambda>c. repo_call c \<and> mutating c) (issued (ensure_external_repos tag False []) w)
           = map (RemoveExternalRepoFromTag tag)
               (set_minus (set_slot w) (map external_repo_name (hub_external_repos w tag)) [])"
proof -
  show "hub_external_repos w' tag = []"
    using ensure_external_repos_real(2) [OF run] by simp
  show "filter (\<lambda>c. repo_call c \<and> mutating c) (issued (ensure_external_repos tag False []) w)
           = map (RemoveExternalRepoFromTag tag)
               (set_minus (set_slot w) (map external_repo_name (hub_external_repos w tag)) [])"
    by (simp add: ensure_external_repos_issued [OF run] repo_removes_filters(3))
qed

lemma unresolved_parent_existing:
  assumes tag: "hub_tags w tag = Some ti"
    and missing: "find (\<lambda>r. hub_tags w (parent r) = None) inheritance = Some r0"
    and accepted: "\<not> chk \<and> tag_edits ti kwargs \<noteq> no_edits \<longrightarrow>
        hub_refuses w Login = None \<and> hub_refuses w (EditTag2 tag (tag_edits ti kwargs)) = None"
  shows "fst (ensure_tag tag chk inheritance external_repos packages kwargs w)
           = Inl (parent_not_found (parent r0)) \<and>
     filter mutating (issued (ensure_tag tag chk inheritance external_repos packages kwargs) w)
       = (if chk \<or> tag_edits ti kwargs = no_edits then []
          else [EditTag2 tag (tag_edits ti kwargs)]) \<and>
     hub_tags (snd (ensure_tag tag chk inheritance external_repos packages kwargs w)) tag
       = Some (if chk \<or> tag_edits ti kwargs = no_edits then ti
               else apply_edits (tag_edits ti kwargs) ti) \<and>
     hub_inheritance (snd (ensure_tag tag chk inheritance external_repos packages kwargs w))
       = hub_inheritance w"
proof -
  let ?w0 = "issue (GetTag tag) w"
  let ?es = "tag_edits ti kwargs"
  let ?res0 = "\<lparr>changed = False, stdout_lines = []\<rparr>"
  define w1 where "w1 = (if chk \<or> ?es = no_edits then ?w0
     else ?w0\<lparr>trace := trace ?w0 @ [Login, EditTag2 tag ?es],
             hub_tags := (hub_tags ?w0)(tag \<mapsto> apply_edits ?es ti)\<rparr>)"
  define res1 where "res1 = (if ?es = no_edits then ?res0 else add_line (EditsStr ?es) ?res0)"
  have params: "ensure_tag_params tag chk ti kwargs ?res0 ?w0 = (Inr res1, w1)"
  proof (cases "?es = no_edits")
    case True
    then show ?thesis by (simp add: ensure_tag_params_none w1_def res1_def)
  next
    case False
    show ?thesis
    proof (cases chk)
      case True
      with False show ?thesis by (simp add: ensure_tag_params_check w1_def res1_def)
    next
      case real: False
      have "hub_refuses ?w0 Login = None" "hub_refuses ?w0 (EditTag2 tag ?es) = None"
        "hub_tags ?w0 tag = Some ti"
        using accepted False real tag by (simp_all add: issue_def)
      from ensure_tag_params_real [OF False this] False real show ?thesis
        by (simp add: w1_def res1_def)
    qed
  qed
  have tags1: "hub_tags w1 = (if chk \<or> ?es = no_edits then hub_tags w
      else (hub_tags w)(tag \<mapsto> apply_edits ?es ti))"
    by (simp add: w1_def issue_def)
  have "hub_tags w1 p = None \<longleftrightarrow> hub_tags w p = None" for p
    using tag by (simp add: tags1)
  then have missing1: "find (\<lambda>r. hub_tags w1 (parent r) = None) inheritance = Some r0"
    using missing by simp
  note m = ensure_inheritance_missing [OF missing1, of tag chk "tag_id ti" res1]
  obtain w2 where inh: "ensure_inheritance tag chk (tag_id ti) inheritance res1 w1
      = (Inl (parent_not_found (parent r0)), w2)"
    using m(1) by (cases "ensure_inheritance tag chk (tag_id ti) inheritance res1 w1") auto
  have run: "ensure_tag tag chk inheritance external_repos packages kwargs w
      = (Inl (parent_not_found (parent r0)), w2)"
    using tag params inh by (simp add: ensure_tag_def kbind_def getTag_def Let_def)
  obtain cs where cs: "trace w2 = trace w1 @ cs" "filter mutating cs = []"
    using m(4) inh by auto
  have tr: "trace w2 = trace w @ ([GetTag tag]
      @ (if chk \<or> ?es = no_edits then [] else [Login, EditTag2 tag ?es]) @ cs)"
    using cs by (simp add: w1_def issue_def)
  have "issued (ensure_tag tag chk inheritance external_repos packages kwargs) w
      = [GetTag tag] @ (if chk \<or> ?es = no_edits then [] else [Login, EditTag2 tag ?es]) @ cs"
    using run tr by (simp add: issued_def)
  then have calls: "filter mutating
      (issued (ensure_tag tag chk inheritance external_repos packages kwargs) w)
       = (if chk \<or> ?es = no_edits then [] else [EditTag2 tag ?es])"
    using cs(2) by simp
  have kept: "hub_tags w2 tag
      = Some (if chk \<or> ?es = no_edits then ti else apply_edits ?es ti)"
    using m(2) inh tags1 tag by simp
  have inh_same: "hub_inheritance w2 = hub_inheritance w"
    using m(3) inh by (simp add: w1_def issue_def)
  from run calls kept inh_same show ?thesis by simp
qed

lemma create_tag_calls:
  assumes run: "create_tag tag kw res w = (Inr created, w1)"
  shows "\<exists>p cs. trace w1 = trace w @ cs \<and>
     filter mutating cs
       = [CreateTag tag \<lparr>c_arches = arches kw, c_perm = p, c_locked = locked kw,
            c_maven_support = maven_support kw, c_maven_include_all = maven_include_all kw,
            c_extra = extra kw\<rparr>]"
proof -
  let ?resolve = "case perm kw of
                Some l \<Rightarrow>
                  if l \<noteq> [] then kbind (get_perm_id l) (\<lambda>i. kreturn (Some (PermId i)))
                  else kreturn (Some (PermLabel l))
              | None \<Rightarrow> kreturn None"
  from run obtain u wa where login: "ensure_logged_in w = (Inr u, wa)"
    and rest1: "kbind ?resolve (\<lambda>p.
         kbind (createTag tag
                  \<lparr>c_arches = arches kw, c_perm = p, c_locked = locked kw,
                   c_maven_support = maven_support kw,
                   c_maven_include_all = maven_include_all kw,
                   c_extra = extra kw\<rparr>) (\<lambda>new_id.
           kreturn (new_id, add_line (CreatedTagId new_id) res))) wa = (Inr created, w1)"
    unfolding create_tag_def by (erule kbind_InrE)
  from login have wa: "trace wa = trace w @ [Login]" by (simp add: ensure_logged_in_Inr issue_def)
  from rest1 obtain p wb where
    resolve: "?resolve wa = (Inr p, wb)"
    and rest2: "kbind (createTag tag
                  \<lparr>c_arches = arches kw, c_perm = p, c_locked = locked kw,
                   c_maven_support = maven_support kw,
                   c_maven_include_all = maven_include_all kw,
                   c_extra = extra kw\<rparr>) (\<lambda>new_id.
           kreturn (new_id, add_line (CreatedTagId new_id) res)) wb = (Inr created, w1)"
    by (erule kbind_InrE)
  have "sends (\<lambda>c. \<not> mutating c) ?resolve" by (auto intro!: sends_intros)
  from sendsD [OF this, of wa] resolve obtain cs where
    cs: "trace wb = trace wa @ cs" "list_all (\<lambda>c. \<not> mutating c) cs" by auto
  let ?a = "\<lparr>c_arches = arches kw, c_perm = p, c_locked = locked kw,
                   c_maven_support = maven_support kw,
                   c_maven_include_all = maven_include_all kw,
                   c_extra = extra kw\<rparr>"
  from rest2 obtain i where c: "createTag tag ?a wb = (Inr i, w1)"
    by (auto simp: kreturn_eq elim!: kbind_InrE)
  then have w1: "trace w1 = trace wb @ [CreateTag tag ?a]"
    by (auto simp: createTag_def hub_call_def issue_def split: option.splits)
  have "filter mutating cs = []" using cs(2) by (simp add: filter_empty_conv list_all_iff)
  then have "trace w1 = trace w @ (Login # cs @ [CreateTag tag ?a]) \<and>
      filter mutating (Login # cs @ [CreateTag tag ?a]) = [CreateTag tag ?a]"
    using wa cs(1) w1 by simp
  then show ?thesis by blast
qed

lemma unresolved_parent_created:
  assumes tag: "hub_tags w tag = None"
    and created: "create_tag tag kwargs \<lparr>changed = False, stdout_lines = []\<rparr>
        (issue (GetTag tag) w) = (Inr created, w1)"
    and missing: "find (\<lambda>r. parent r \<noteq> tag \<and> hub_tags w (parent r) = None) inheritance
        = Some r0"
  shows "fst (ensure_tag tag False inheritance external_repos packages kwargs w)
           = Inl (parent_not_found (parent r0)) \<and>
     (\<exists>p. filter mutating
            (issued (ensure_tag tag False inheritance external_repos packages kwargs) w)
       = [CreateTag tag \<lparr>c_arches = arches kwargs, c_perm = p, c_locked = locked kwargs,
            c_maven_support = maven_support kwargs,
            c_maven_include_all = maven_include_all kwargs, c_extra = extra kwargs\<rparr>]) \<and>
     (\<exists>ti. hub_tags (snd (ensure_tag tag False inheritance external_repos packages kwargs w)) tag
            = Some ti \<and> tag_id ti = fst created) \<and>
     hub_inheritance (snd (ensure_tag tag False inheritance external_repos packages kwargs w))
       = hub_inheritance w"
proof -
  let ?w0 = "issue (GetTag tag) w"
  let ?res0 = "\<lparr>changed = False, stdout_lines = []\<rparr>"
  from create_tag_tags [OF created] obtain ti' where
    tags1: "hub_tags w1 = (hub_tags ?w0)(tag \<mapsto> ti')" and tid: "tag_id ti' = fst created"
    by blast
  have "hub_tags w1 p = None \<longleftrightarrow> p \<noteq> tag \<and> hub_tags w p = None" for p
    by (simp add: tags1 issue_def)
  then have missing1: "find (\<lambda>r. hub_tags w1 (parent r) = None) inheritance = Some r0"
    using missing by simp
  note m = ensure_inheritance_missing [OF missing1, of tag False "fst created" "snd created"]
  obtain w2 where inh: "ensure_inheritance tag False (fst created) inheritance (snd created) w1
      = (Inl (parent_not_found (parent r0)), w2)"
    using m(1)
    by (cases "ensure_inheritance tag False (fst created) inheritance (snd created) w1") auto
  have run: "ensure_tag tag False inheritance external_repos packages kwargs w
      = (Inl (parent_not_found (parent r0)), w2)"
    using tag created inh by (simp add: ensure_tag_def kbind_def getTag_def Let_def)
  from create_tag_calls [OF created] obtain p cs1 where
    cs1: "trace w1 = trace ?w0 @ cs1"
    and c1: "filter mutating cs1
       = [CreateTag tag \<lparr>c_arches = arches kwargs, c_perm = p, c_locked = locked kwargs,
            c_maven_support = maven_support kwargs,
            c_maven_include_all = maven_include_all kwargs, c_extra = extra kwargs\<rparr>]"
    by blast
  obtain cs where cs: "trace w2 = trace w1 @ cs" "filter mutating cs = []"
    using m(4) inh by auto
  have "issued (ensure_tag tag False inheritance external_repos packages kwargs) w
      = [GetTag tag] @ cs1 @ cs"
    using run cs cs1 by (simp add: issued_def issue_def)
  then have calls: "filter mutating
      (issued (ensure_tag tag False inheritance external_repos packages kwargs) w)
       = [CreateTag tag \<lparr>c_arches = arches kwargs, c_perm = p, c_locked = locked kwargs,
            c_maven_support = maven_support kwargs,
            c_maven_include_all = maven_include_all kwargs, c_extra = extra kwargs\<rparr>]"
    using cs(2) c1 by simp
  have kept: "hub_tags w2 tag = Some ti'"
    using m(2) inh tags1 by simp
  have "hub_inheritance w1 = hub_inheritance ?w0"
    using keeps_create_tag(1) [of tag kwargs ?res0, THEN keepsD, of ?w0] created by simp
  then have inh_same: "hub_inheritance w2 = hub_inheritance w"
    using m(3) inh by (simp add: issue_def)
  from run calls kept tid inh_same show ?thesis by auto
qed

lemma fetchesD:
  "fetches n m \<Longrightarrow> \<exists>cs. trace (snd (m w)) = trace w @ cs \<and> count_list cs GetAllPerms \<le> n"
  by (simp add: fetches_def)

lemma fetches_none: 
  assumes "sends (\<lambda>c. c \<noteq> GetAllPerms) m"
  shows "fetches 0 m"
  unfolding fetches_def
proof
  fix w
  from sendsD [OF assms, of w] obtain cs where
    cs: "trace (snd (m w)) = trace w @ cs" "list_all (\<lambda>c. c \<noteq> GetAllPerms) cs" by blast
  then have "GetAllPerms \<notin> set cs" by (auto simp: list_all_iff)
  then have "count_list cs GetAllPerms = 0" by (rule count_list_zero)
  with cs(1) show "\<exists>cs. trace (snd (m w)) = trace w @ cs \<and> count_list cs GetAllPerms \<le> 0"
    by auto
qed

lemma fetches_mono: "fetches n m \<Longrightarrow> n \<le> k \<Longrightarrow> fetches k m"
  unfolding fetches_def by (meson order_trans)

lemma fetches_kreturn: "fetches n (kreturn x)"
  by (simp add: fetches_def kreturn_def)

lemma fetches_kraise: "fetches n (kraise e)"
  by (simp add: fetches_def kraise_def)

lemma fetches_kbind:
  assumes "fetches a m" and "\<And>x. fetches b (f x)"
  shows "fetches (a + b) (kbind m f)"
  unfolding fetches_def
proof
  fix w
  obtain r w' where step: "m w = (r, w')" by (cases "m w")
  obtain cs where cs: "trace w' = trace w @ cs" "count_list cs GetAllPerms \<le> a"
    using fetchesD [OF assms(1), of w] step by auto
  show "\<exists>cs. trace (snd (kbind m f w)) = trace w @ cs \<and> count_list cs GetAllPerms \<le> a + b"
  proof (cases r)
    case (Inl e)
    then show ?thesis using step cs by (auto simp: kbind_def)
  next
    case (Inr x)
    obtain ds where ds: "trace (snd (f x w')) = trace w' @ ds" "count_list ds GetAllPerms \<le> b"
      using fetchesD [OF assms(2), of x w'] by auto
    have "trace (snd (kbind m f w)) = trace w @ (cs @ ds)"
      "count_list (cs @ ds) GetAllPerms \<le> a + b"
      using Inr step cs ds by (auto simp: kbind_def)
    then show ?thesis by blast
  qed
qed

lemma fetches_kcatch_raise:
  assumes "fetches n m"
  shows "fetches n (kcatch m (\<lambda>e. kraise (h e)))"
  unfolding fetches_def
proof
  fix w
  have "snd (kcatch m (\<lambda>e. kraise (h e)) w) = snd (m w)"
    by (cases "m w") (auto simp: kcatch_def kraise_def split: sum.splits)
  with fetchesD [OF assms, of w]
  show "\<exists>cs. trace (snd (kcatch m (\<lambda>e. kraise (h e)) w)) = trace w @ cs
           \<and> count_list cs GetAllPerms \<le> n"
    by simp
qed

lemma fetches_get_perm_id: "fetches 1 (get_perm_id l)"
  unfolding fetches_def
proof
  fix w
  show "\<exists>cs. trace (snd (get_perm_id l w)) = trace w @ cs \<and> count_list cs GetAllPerms \<le> 1"
  proof (cases "perm_cache w = []")
    case True
    from get_perm_id_fetches [OF True, of l]
    have "trace (snd (get_perm_id l w)) = trace w @ [GetAllPerms]"
      by (simp add: Let_def issue_def)
    then show ?thesis by (intro exI [of _ "[GetAllPerms]"]) simp
  next
    case False
    from get_perm_id_cached [OF False, of l]
    have "trace (snd (get_perm_id l w)) = trace w @ []" by simp
    then show ?thesis by (intro exI [of _ "[]"]) simp
  qed
qed

lemma fetches_create_tag: "fetches 1 (create_tag tag kw res)"
proof -
  have a: "fetches 0 ensure_logged_in"
    by (rule fetches_none) (auto intro!: sends_intros)
  have b: "fetches 1 (case perm kw of
                Some l \<Rightarrow>
                  if l \<noteq> [] then kbind (get_perm_id l) (\<lambda>i. kreturn (Some (PermId i)))
                  else kreturn (Some (PermLabel l))
              | None \<Rightarrow> kreturn None)"
  proof (cases "perm kw")
    case None
    with fetches_kreturn [of 1 "None :: perm_val option"] show ?thesis by simp
  next
    case (Some l)
    show ?thesis
    proof (cases "l = []")
      case True
      with Some fetches_kreturn [of 1 "Some (PermLabel l)"] show ?thesis by simp
    next
      case False
      have "fetches (1 + 0) (kbind (get_perm_id l) (\<lambda>i. kreturn (Some (PermId i))))"
        by (rule fetches_kbind [OF fetches_get_perm_id]) (rule fetches_none, rule sends_kreturn)
      with Some False show ?thesis by simp
    qed
  qed
  have c: "fetches 0 (kbind (createTag tag a) (\<lambda>new_id.
           kreturn (new_id, add_line (CreatedTagId new_id) res)))" for a
    by (rule fetches_none) (auto intro!: sends_intros)
  have "fetches (0 + (1 + 0)) (create_tag tag kw res)"
    unfolding create_tag_def
    by (intro fetches_kbind a b c)
  then show ?thesis by simp
qed

lemma fetches_ensure_tag: "fetches 1 (ensure_tag tag chk inh ext pk kw)"
proof -
  have g: "fetches 0 (getTag tag)"
    by (rule fetches_none) (auto intro!: sends_intros)
  have rest: "fetches 0 (kbind (ensure_inheritance tag chk tid inh r1) (\<lambda>result.
                 kbind (ensure_tag_repos tag chk ext result) (\<lambda>result.
                   ensure_package_list tag chk tid pk result)))" for tid r1
    by (rule fetches_none)
      (auto intro!: sends_intros sends_ensure_inheritance sends_ensure_tag_repos
        sends_ensure_package_list)
  have existing: "fetches 0 (kbind (ensure_tag_params tag chk ti kw r0) (\<lambda>result.
             kbind (ensure_inheritance tag chk (tag_id ti) inh result) (\<lambda>result.
               kbind (ensure_tag_repos tag chk ext result) (\<lambda>result.
                 ensure_package_list tag chk (tag_id ti) pk result))))" for ti r0
    by (rule fetches_none)
      (auto intro!: sends_intros sends_ensure_tag_params sends_ensure_inheritance
        sends_ensure_tag_repos sends_ensure_package_list)
  have would: "fetches 1 (kreturn (r :: result))" for r
    by (rule fetches_kreturn)
  have created: "fetches (1 + 0) (kbind (create_tag tag kw r0) (\<lambda>created.
               kbind (ensure_inheritance tag chk (fst created) inh (snd created))
                 (\<lambda>result.
                 kbind (ensure_tag_repos tag chk ext result) (\<lambda>result.
                   ensure_package_list tag chk (fst created) pk result))))" for r0
    by (rule fetches_kbind [OF fetches_create_tag]) (rule rest)
  have "fetches (0 + 1) (ensure_tag tag chk inh ext pk kw)"
    unfolding ensure_tag_def Let_def
  proof (rule fetches_kbind [OF g])
    fix taginfo
    show "fetches 1 (case taginfo of
         None \<Rightarrow>
           if chk then kreturn (add_line (WouldCreateTag tag) \<lparr>changed = False, stdout_lines = []\<rparr>)
           else
             kbind (create_tag tag kw \<lparr>changed = False, stdout_lines = []\<rparr>) (\<lambda>created.
               kbind (ensure_inheritance tag chk (fst created) inh (snd created))
                 (\<lambda>result.
                 kbind (ensure_tag_repos tag chk ext result) (\<lambda>result.
                   ensure_package_list tag chk (fst created) pk result)))
       | Some ti \<Rightarrow>
           kbind (ensure_tag_params tag chk ti kw \<lparr>changed = False, stdout_lines = []\<rparr>) (\<lambda>result.
             kbind (ensure_inheritance tag chk (tag_id ti) inh result)
               (\<lambda>result.
               kbind (ensure_tag_repos tag chk ext result) (\<lambda>result.
                 ensure_package_list tag chk (tag_id ti) pk result))))"
      using created existing [THEN fetches_mono, of 1] would by (cases taginfo) auto
  qed
  then show ?thesis by simp
qed

lemma fetches_delete_tag: "fetches 0 (delete_tag tag chk)"
  unfolding delete_tag_def Let_def
  by (rule fetches_none) (auto intro!: sends_intros)

lemma fetches_run_module: "fetches 1 (koji_tag_run_module chk name state inh ext pk params)"
proof -
  have a: "fetches 1 (kcatch
             (kbind (ensure_tag name chk inh ext pk kw) (\<lambda>result. kreturn (TagResult result)))
             (\<lambda>e. kraise (AnsibleError ''ensure_tag'' e)))" for kw
  proof (rule fetches_kcatch_raise)
    have "fetches (1 + 0) (kbind (ensure_tag name chk inh ext pk kw)
        (\<lambda>result. kreturn (TagResult result)))"
      by (rule fetches_kbind [OF fetches_ensure_tag]) (rule fetches_none, rule sends_kreturn)
    then show "fetches 1 (kbind (ensure_tag name chk inh ext pk kw)
        (\<lambda>result. kreturn (TagResult result)))" by simp
  qed
  have b: "fetches 1 (kcatch (kbind (delete_tag name chk) (\<lambda>result. kreturn (DeleteResult result)))
             (\<lambda>e. kraise (AnsibleError ''delete_tag'' e)))"
  proof (rule fetches_kcatch_raise)
    have "fetches (0 + 0) (kbind (delete_tag name chk) (\<lambda>result. kreturn (DeleteResult result)))"
      by (rule fetches_kbind [OF fetches_delete_tag]) (rule fetches_none, rule sends_kreturn)
    then show "fetches 1 (kbind (delete_tag name chk) (\<lambda>result. kreturn (DeleteResult result)))"
      by (rule fetches_mono) simp
  qed
  have c: "fetches 1 (kraise e :: outcome koji)" for e
    by (rule fetches_kraise)
  show ?thesis
    unfolding koji_tag_run_module_def using a b c by simp
qed

lemma fetches_issued: "fetches n m \<Longrightarrow> count_list (issued m w) GetAllPerms \<le> n"
  using fetchesD [of n m w] by (auto simp: issued_def)

lemma get_perm_id_Inr_cache:
  assumes "get_perm_id l w = (Inr i, w')"
  shows "perm_cache w' \<noteq> []"
proof (cases "perm_cache w = []")
  case True
  from assms get_perm_id_fetches [OF True, of l] show ?thesis
    by (auto simp: Let_def split: option.splits)
next
  case False
  from assms get_perm_id_cached [OF False, of l] show ?thesis
    by (auto split: option.splits)
qed

lemma resolve_cached:
  assumes "perm_cache w \<noteq> []"
  shows "snd (kfold (\<lambda>label ids. kbind (get_perm_id label) (\<lambda>i. kreturn (ids @ [i])))
                labels acc w) = w"
proof (induction labels arbitrary: acc)
  case Nil
  show ?case by simp
next
  case (Cons l labels)
  show ?case
    using get_perm_id_cached [OF assms, of l] Cons.IH
    by (auto simp: kbind_def kreturn_def split: option.splits)
qed

lemma fetches_resolve_labels: "fetches 1 (resolve_labels labels)"
  unfolding fetches_def
proof
  fix w
  let ?step = "\<lambda>label ids. kbind (get_perm_id label) (\<lambda>i. kreturn (ids @ [i]))"
  show "\<exists>cs. trace (snd (resolve_labels labels w)) = trace w @ cs
          \<and> count_list cs GetAllPerms \<le> 1"
  proof (cases "perm_cache w = [] \<and> labels \<noteq> []")
    case False
    have "snd (resolve_labels labels w) = w"
    proof (cases labels)
      case Nil
      then show ?thesis by (simp add: resolve_labels_def)
    next
      case (Cons l ls)
      with False have "perm_cache w \<noteq> []" by simp
      then show ?thesis unfolding resolve_labels_def by (rule resolve_cached)
    qed
    then show ?thesis by (intro exI [of _ "[]"]) simp
  next
    case True
    then obtain l ls where labels: "labels = l # ls" by (cases labels) auto
    from True have empty: "perm_cache w = []" by simp
    obtain r w1 where first: "get_perm_id l w = (r, w1)" by (cases "get_perm_id l w")
    have t1: "trace w1 = trace w @ [GetAllPerms]"
      using get_perm_id_fetches [OF empty, of l] first by (simp add: Let_def issue_def)
    show ?thesis
    proof (cases r)
      case (Inl e)
      then have "snd (resolve_labels labels w) = w1"
        using first labels by (simp add: resolve_labels_def kbind_def)
      with t1 show ?thesis by (intro exI [of _ "[GetAllPerms]"]) simp
    next
      case (Inr i)
      with first have "perm_cache w1 \<noteq> []" by (simp add: get_perm_id_Inr_cache)
      from resolve_cached [OF this, of ls "[i]"]
      have "snd (resolve_labels labels w) = w1"
        using first labels Inr by (simp add: resolve_labels_def kbind_def kreturn_def)
      with t1 show ?thesis by (intro exI [of _ "[GetAllPerms]"]) simp
    qed
  qed
qed

section \<open>The claims\<close>

subsection \<open>C8: granting and revoking content generator access\<close>

text \<open>
  C8. With \<^verbatim>\<open>state=present\<close> the run sends exactly one call, the grant. If the grant
  returns, \<^verbatim>\<open>changed\<close> is true; if it raises a \<^verbatim>\<open>GenericError\<close> whose message
  contains "User already has access to content generator", the error is swallowed and
  \<^verbatim>\<open>changed\<close> is false; any other exception reaches the caller. With
  \<^verbatim>\<open>state=absent\<close> the run sends exactly one call, the revoke, and reports
  \<^verbatim>\<open>changed\<close> true whenever the revoke returns, whatever the hub held before (an
  exception of the revoke call itself reaches the caller).
\<close>

theorem C8_access_grant:
  "issued (koji_cg_run_module chk cg user ''present'') w = [GrantCGAccess user cg] \<and>
   (grantCGAccess user cg w = (Inr (), w') \<longrightarrow>
      koji_cg_run_module chk cg user ''present'' w = (Inr True, w')) \<and>
   (grantCGAccess user cg w = (Inl (GenericError m), w') \<and> contains already_has_access m \<longrightarrow>
      koji_cg_run_module chk cg user ''present'' w = (Inr False, w')) \<and>
   (grantCGAccess user cg w = (Inl e, w') \<and>
      (\<forall>m'. e = GenericError m' \<longrightarrow> \<not> contains already_has_access m') \<longrightarrow>
      koji_cg_run_module chk cg user ''present'' w = (Inl e, w')) \<and>
   issued (koji_cg_run_module chk cg user ''absent'') w = [RevokeCGAccess user cg] \<and>
   fst (koji_cg_run_module chk cg user ''absent'' w) =
     (case fst (revokeCGAccess user cg w) of Inl e' \<Rightarrow> Inl e' | Inr u \<Rightarrow> Inr True)"
proof -
  have present_trace: "issued (koji_cg_run_module chk cg user ''present'') w = [GrantCGAccess user cg]"
    using grant_issued [of user cg w]
    by (auto simp: issued_def koji_cg_run_module_def kcatch_def kbind_def kreturn_def kraise_def
        split: prod.splits sum.splits exn.splits)
  have ok: "grantCGAccess user cg w = (Inr (), w') \<longrightarrow>
      koji_cg_run_module chk cg user ''present'' w = (Inr True, w')"
    by (simp add: koji_cg_run_module_def kcatch_def kbind_def kreturn_def)
  have swallowed: "grantCGAccess user cg w = (Inl (GenericError m), w') \<and> contains already_has_access m \<longrightarrow>
      koji_cg_run_module chk cg user ''present'' w = (Inr False, w')"
    by (simp add: koji_cg_run_module_def kcatch_def kbind_def kreturn_def)
  have propagates: "grantCGAccess user cg w = (Inl e, w') \<and>
      (\<forall>m'. e = GenericError m' \<longrightarrow> \<not> contains already_has_access m') \<longrightarrow>
      koji_cg_run_module chk cg user ''present'' w = (Inl e, w')"
    by (cases e) (simp_all add: koji_cg_run_module_def kcatch_def kbind_def kraise_def)
  have absent_trace: "issued (koji_cg_run_module chk cg user ''absent'') w = [RevokeCGAccess user cg]"
    using revoke_issued [of user cg w]
    by (auto simp: issued_def koji_cg_run_module_def kbind_def kreturn_def
        split: prod.splits sum.splits)
  have absent_result: "fst (koji_cg_run_module chk cg user ''absent'' w) =
     (case fst (revokeCGAccess user cg w) of Inl e' \<Rightarrow> Inl e' | Inr u \<Rightarrow> Inr True)"
    by (auto simp: koji_cg_run_module_def kbind_def kreturn_def split: prod.splits sum.splits)
  show ?thesis
    using present_trace ok swallowed propagates absent_trace absent_result by blast
qed

theorem C8_access_grant_witness:
  "grantCGAccess ''alice'' ''debian'' w_cg = (Inr (), snd (grantCGAccess ''alice'' ''debian'' w_cg)) \<and>
   fst (koji_cg_run_module False ''debian'' ''alice'' ''present'' w_cg) = Inr True \<and>
   fst (grantCGAccess ''kdreyer'' ''debian'' w_cg)
      = Inl (GenericError ''User already has access to content generator debian'') \<and>
   contains already_has_access ''User already has access to content generator debian'' \<and>
   fst (koji_cg_run_module False ''debian'' ''kdreyer'' ''present'' w_cg) = Inr False \<and>
   fst (grantCGAccess ''nobody'' ''debian'' w_cg) = Inl (GenericError ''No such user: nobody'') \<and>
   \<not> contains already_has_access ''No such user: nobody'' \<and>
   fst (koji_cg_run_module False ''debian'' ''nobody'' ''present'' w_cg)
      = Inl (GenericError ''No such user: nobody'') \<and>
   issued (koji_cg_run_module False ''debian'' ''kdreyer'' ''present'') w_cg
      = [GrantCGAccess ''kdreyer'' ''debian''] \<and>
   fst (koji_cg_run_module False ''debian'' ''alice'' ''absent'' w_cg) = Inr True \<and>
   issued (koji_cg_run_module False ''debian'' ''alice'' ''absent'') w_cg
      = [RevokeCGAccess ''alice'' ''debian'']"
  using C8_access_grant [of False "''debian''" "''alice''" w_cg
      "snd (grantCGAccess ''alice'' ''debian'' w_cg)"]
    C8_access_grant [of False "''debian''" "''kdreyer''" w_cg
      "snd (grantCGAccess ''kdreyer'' ''debian'' w_cg)"
      "''User already has access to content generator debian''"]
    C8_access_grant [of False "''debian''" "''nobody''" w_cg
      "snd (grantCGAccess ''nobody'' ''debian'' w_cg)" _ "GenericError ''No such user: nobody''"]
  by (simp add: cg_eval)

subsection \<open>C9: the keys of \<^verbatim>\<open>extra\<close> to remove\<close>

text \<open>
  C9. For a tag that exists, the \<^verbatim>\<open>remove_extra\<close> entry of the computed edits lists
  exactly the keys that the hub's \<^verbatim>\<open>extra\<close> has and the declared \<^verbatim>\<open>extra\<close> lacks
  (the entry is missing when there is no such key).
\<close>

theorem C9_remove_set:
  "set (case remove_extra (tag_edits ti kwargs) of None \<Rightarrow> [] | Some ks \<Rightarrow> ks)
     = fst ` set (extra ti) - fst ` set (extra kwargs)"
  by (auto simp: tag_edits_def Let_def filter_empty_conv)

theorem C9_remove_set_witness:
  "remove_extra (tag_edits ti_ab kw_a) = Some [''b''] \<and>
   set (case remove_extra (tag_edits ti_ab kw_a) of None \<Rightarrow> [] | Some ks \<Rightarrow> ks) = {''b''}"
  using C9_remove_set [of ti_ab kw_a]
  by (simp add: tag_edits_def ti_ab_def kw_a_def)

subsection \<open>C2: the inheritance rules are compared and replaced as a whole\<close>

text \<open>
  C2. Let \<open>rules\<close> be the list that the loop of lines 230-245 builds: one full rule for
  each declared entry, in the declared order. When the inheritance section runs to its
  end outside check mode, the one test is whether the list the hub returns equals
  \<open>rules\<close> (equality of lists of records: another field value, another length or
  another order makes them differ). If they are equal the section sends no write and
  leaves the result as it was. If they differ it marks the result changed, and its only
  write is one \<^verbatim>\<open>setInheritanceData(name, rules, clear=True)\<close> carrying the complete
  list, after which the hub holds exactly \<open>rules\<close> for the tag. The model has no call
  that updates a single rule, as the module has none.
\<close>

theorem C2_inheritance_whole_set:
  assumes loop: "kfold (inh_step tid) inheritance [] w = (Inr rules, w1)"
    and run: "ensure_inheritance tag False tid inheritance result w = (Inr result', w')"
  shows "map rule_name rules = map parent inheritance \<and>
     map priority rules = map inh_priority inheritance \<and>
     (hub_inheritance w tag = rules \<longrightarrow>
        result' = result \<and>
        filter mutating (issued (ensure_inheritance tag False tid inheritance result) w) = [] \<and>
        hub_inheritance w' = hub_inheritance w) \<and>
     (hub_inheritance w tag \<noteq> rules \<longrightarrow>
        result' = add_line (InheritanceIs inheritance) result \<and>
        filter mutating (issued (ensure_inheritance tag False tid inheritance result) w)
          = [SetInheritanceData tag rules] \<and>
        hub_inheritance w' tag = rules)"
proof -
  have shape: "map rule_name rules = map parent inheritance \<and>
     map priority rules = map inh_priority inheritance"
    using inh_loop_shape [OF loop] by simp
  obtain cs where cs: "trace w1 = trace w @ cs" "filter mutating cs = []"
    using inh_loop_trace [OF loop] by blast
  have k: "hub_inheritance w1 = hub_inheritance w"
    using keepsD [OF keeps_inh_loop, of hub_inheritance tid inheritance "[]" w] loop by simp
  note dec = ensure_inheritance_Inr [OF run, unfolded loop]
  have same: "result' = result \<and>
        filter mutating (issued (ensure_inheritance tag False tid inheritance result) w) = [] \<and>
        hub_inheritance w' = hub_inheritance w"
    if "hub_inheritance w tag = rules"
    using dec that cs k run by (auto simp: issued_def issue_def)
  have differs: "result' = add_line (InheritanceIs inheritance) result \<and>
        filter mutating (issued (ensure_inheritance tag False tid inheritance result) w)
          = [SetInheritanceData tag rules] \<and>
        hub_inheritance w' tag = rules"
    if "hub_inheritance w tag \<noteq> rules"
    using dec that cs k run by (auto simp: issued_def issue_def)
  from shape same differs show ?thesis by blast
qed

theorem C2_inheritance_whole_set_witness:
  "fst (kfold (inh_step 1) [\<lparr>parent = ''base'', inh_priority = 0\<rparr>] [] w_inh)
     = Inr [\<lparr>child_id = 1, intransitive = False, maxdepth = None, rule_name = ''base'',
             noconfig = False, parent_id = 2, pkg_filter = [], priority = 0\<rparr>] \<and>
   hub_inheritance w_inh ''t''
     = [\<lparr>child_id = 1, intransitive = False, maxdepth = None, rule_name = ''base'',
         noconfig = False, parent_id = 2, pkg_filter = [], priority = 1\<rparr>] \<and>
   fst (ensure_inheritance ''t'' False 1 [\<lparr>parent = ''base'', inh_priority = 0\<rparr>] unchanged w_inh)
     = Inr \<lparr>changed = True,
            stdout_lines = [InheritanceIs [\<lparr>parent = ''base'', inh_priority = 0\<rparr>]]\<rparr> \<and>
   filter mutating
     (issued (ensure_inheritance ''t'' False 1 [\<lparr>parent = ''base'', inh_priority = 0\<rparr>] unchanged) w_inh)
     = [SetInheritanceData ''t''
          [\<lparr>child_id = 1, intransitive = False, maxdepth = None, rule_name = ''base'',
            noconfig = False, parent_id = 2, pkg_filter = [], priority = 0\<rparr>]] \<and>
   hub_inheritance
     (snd (ensure_inheritance ''t'' False 1 [\<lparr>parent = ''base'', inh_priority = 0\<rparr>] unchanged w_inh))
     ''t''
     = [\<lparr>child_id = 1, intransitive = False, maxdepth = None, rule_name = ''base'',
         noconfig = False, parent_id = 2, pkg_filter = [], priority = 0\<rparr>]"
  using C2_inheritance_whole_set [of 1 "[\<lparr>parent = ''base'', inh_priority = 0\<rparr>]" w_inh
      "[\<lparr>child_id = 1, intransitive = False, maxdepth = None, rule_name = ''base'',
             noconfig = False, parent_id = 2, pkg_filter = [], priority = 0\<rparr>]"
      "snd (kfold (inh_step 1) [\<lparr>parent = ''base'', inh_priority = 0\<rparr>] [] w_inh)"
      "''t''" unchanged
      "\<lparr>changed = True,
            stdout_lines = [InheritanceIs [\<lparr>parent = ''base'', inh_priority = 0\<rparr>]]\<rparr>"
      "snd (ensure_inheritance ''t'' False 1 [\<lparr>parent = ''base'', inh_priority = 0\<rparr>] unchanged w_inh)"]
  by (simp add: module_defs hub_defs example_defs w_inh_def Let_def)

subsection \<open>C10: the owner passed when a package is removed\<close>

text \<open>
  C10. When a run of \<^verbatim>\<open>ensure_tag\<close> with a non-empty \<^verbatim>\<open>packages\<close> mapping returns
  outside check mode, the calls that remove packages are one \<^verbatim>\<open>packageListRemove\<close>
  for each package that the hub lists for the tag and no declared owner names, each
  package once and in no particular order (the loop of line 293 iterates over a set),
  and the owner argument of every one of them is the key of the last item of
  \<^verbatim>\<open>packages.items()\<close>: the value the loop of line 273 left in the variable
  \<^verbatim>\<open>owner\<close>, whoever owns the package on the hub. In the witness the removed package
  belongs to bob and the call names alice.
\<close>

theorem C10_remove_owner:
  assumes "packages \<noteq> []"
    and "ensure_tag tag False inh ext packages kw w = (Inr res, w')"
  shows "\<exists>ti. hub_tags w' tag = Some ti \<and>
     set (filter pkg_remove_call (issued (ensure_tag tag False inh ext packages kw) w))
       = (\<lambda>q. PackageListRemove tag q (fst (last packages)))
           ` (package_name ` set (hub_packages w (tag_id ti)) - set (concat (map snd packages))) \<and>
     distinct (filter pkg_remove_call (issued (ensure_tag tag False inh ext packages kw) w))"
proof -
  from ensure_tag_calls [OF assms(2)] obtain ti2 res2 w2 res3 w3 cs where
    cs: "list_all other_call cs" and tg: "hub_tags w' tag = Some ti2"
    and k: "hub_packages w3 = hub_packages w" "set_slot w3 = set_slot w"
    and q: "ensure_package_list tag False (tag_id ti2) packages res3 w3 = (Inr res, w')"
    and iss: "issued (ensure_tag tag False inh ext packages kw) w
       = cs @ issued (ensure_tag_repos tag False ext res2) w2
            @ issued (ensure_package_list tag False (tag_id ti2) packages res3) w3"
    by auto
  let ?dn = "set_minus (set_slot w) (map package_name (hub_packages w (tag_id ti2)))
              (concat (map snd packages))"
  have "filter pkg_remove_call (issued (ensure_tag tag False inh ext packages kw) w)
      = map (\<lambda>q. PackageListRemove tag q (fst (last packages))) ?dn"
    by (simp add: iss other_call_filters(1) [OF cs] repo_section_filters(1)
        ensure_package_list_removes [OF q assms(1)] k)
  moreover have "distinct (map (\<lambda>q. PackageListRemove tag q (fst (last packages))) ?dn)"
    by (simp add: distinct_map inj_on_def)
  ultimately show ?thesis using tg by auto
qed

theorem C10_remove_owner_witness:
  "hub_packages w_ex 1 = [\<lparr>package_name = ''foo'', owner_name = ''bob''\<rparr>,
                          \<lparr>package_name = ''bar'', owner_name = ''bob''\<rparr>] \<and>
   fst (ensure_tag ''t'' False [] None [(''carol'', []), (''alice'', [''foo''])] kw_ab w_ex)
     = Inr \<lparr>changed = True, stdout_lines = [SetOwner ''foo'' ''alice'', RemovePkg ''bar'']\<rparr> \<and>
   filter pkg_remove_call
       (issued (ensure_tag ''t'' False [] None [(''carol'', []), (''alice'', [''foo''])] kw_ab) w_ex)
     = [PackageListRemove ''t'' ''bar'' ''alice''] \<and>
   (\<exists>ti. hub_tags (snd (ensure_tag ''t'' False [] None [(''carol'', []), (''alice'', [''foo''])]
                           kw_ab w_ex)) ''t'' = Some ti \<and>
     set (filter pkg_remove_call
            (issued (ensure_tag ''t'' False [] None [(''carol'', []), (''alice'', [''foo''])] kw_ab)
               w_ex))
       = (\<lambda>q. PackageListRemove ''t'' q ''alice'')
           ` (package_name ` set (hub_packages w_ex (tag_id ti)) - {''foo''}))"
  using C10_remove_owner [of "[(''carol'', []), (''alice'', [''foo''])]" "''t''" "[]" None kw_ab w_ex
      "\<lparr>changed = True, stdout_lines = [SetOwner ''foo'' ''alice'', RemovePkg ''bar'']\<rparr>"
      "snd (ensure_tag ''t'' False [] None [(''carol'', []), (''alice'', [''foo''])] kw_ab w_ex)"]
  by (simp add: module_defs hub_defs example_defs kw_ab_def Let_def)

subsection \<open>C6: the package list\<close>

text \<open>
  C6, against \<open>exactly one ownership reassignment for that package\<close>. The hub lists
  \<^verbatim>\<open>foo\<close> under bob, and the mapping declares it for two owners,
  \<^verbatim>\<open>{alice: [foo], carol: [foo, bar]}\<close>. The pair (alice, foo) names a package that is
  present under a different owner, and the run sends two reassignments of \<^verbatim>\<open>foo\<close>:
  lines 284-286 compare every declared pair with the owners fetched at the start.
\<close>

theorem C6_packages_counterexample:
  "hub_tags w_ex ''t'' = Some ti_ab \<and> tag_id ti_ab = 1 \<and>
   hub_packages w_ex 1 = [\<lparr>package_name = ''foo'', owner_name = ''bob''\<rparr>,
                          \<lparr>package_name = ''bar'', owner_name = ''bob''\<rparr>] \<and>
   fst (ensure_tag ''t'' False [] None
          [(''alice'', [''foo'']), (''carol'', [''foo'', ''bar''])] kw_ab w_ex)
     = Inr \<lparr>changed = True,
            stdout_lines = [SetOwner ''foo'' ''alice'', SetOwner ''foo'' ''carol'',
                            SetOwner ''bar'' ''carol'']\<rparr> \<and>
   filter (reassigns_pkg ''foo'')
       (issued (ensure_tag ''t'' False [] None
                  [(''alice'', [''foo'']), (''carol'', [''foo'', ''bar''])] kw_ab) w_ex)
     = [PackageListSetOwner ''t'' ''foo'' ''alice'', PackageListSetOwner ''t'' ''foo'' ''carol'']"
  by (simp add: module_defs hub_defs example_defs kw_ab_def Let_def)

text \<open>
  C6, as the code has it. With an empty \<^verbatim>\<open>packages\<close> mapping a run of \<^verbatim>\<open>ensure_tag\<close>
  leaves every package list of the hub as it was and sends no call that concerns
  packages (neither \<^verbatim>\<open>listPackages\<close> nor a write), in either mode and whether it
  returns or raises. When a run outside check mode returns and a declared package is
  listed by the hub for the tag, the run sends one \<^verbatim>\<open>packageListSetOwner\<close> for that
  package for each declared pair (owner, package) whose owner did not own it when the
  list was fetched, in the order of the declaration, and sends no \<^verbatim>\<open>packageListAdd\<close>
  and no \<^verbatim>\<open>packageListRemove\<close> for it. So there is exactly one reassignment, to
  the declared owner, when the package is declared once and that owner did not own it.
\<close>

theorem C6_packages:
  "hub_packages (snd (ensure_tag tag chk inh ext [] kw w)) = hub_packages w \<and>
   list_all (\<lambda>c. \<not> pkg_call c) (issued (ensure_tag tag chk inh ext [] kw) w) \<and>
   (ensure_tag tag False inh ext packages kw w = (Inr res, w') \<and> hub_tags w tag = Some ti \<and>
    q \<in> set (concat (map snd packages)) \<and>
    q \<in> package_name ` set (hub_packages w (tag_id ti)) \<longrightarrow>
      filter (reassigns_pkg q) (issued (ensure_tag tag False inh ext packages kw) w)
        = map (PackageListSetOwner tag q) (new_owners (hub_packages w (tag_id ti)) packages q) \<and>
      filter (adds_or_removes_pkg q) (issued (ensure_tag tag False inh ext packages kw) w) = [] \<and>
      (filter (\<lambda>d. snd d = q) (declared_pairs packages) = [(ow, q)] \<and>
       q \<notin> current_owned_of (hub_packages w (tag_id ti)) ow \<longrightarrow>
         filter (reassigns_pkg q) (issued (ensure_tag tag False inh ext packages kw) w)
           = [PackageListSetOwner tag q ow]))"
proof -
  have untouched: "hub_packages (snd (ensure_tag tag chk inh ext [] kw w)) = hub_packages w"
    by (rule keepsD [OF keeps_packages_ensure_tag_Nil])
  have silent: "list_all (\<lambda>c. \<not> pkg_call c) (issued (ensure_tag tag chk inh ext [] kw) w)"
    by (rule issued_sends(2) [OF sends_ensure_tag_Nil])
  have reassign:
    "filter (reassigns_pkg q) (issued (ensure_tag tag False inh ext packages kw) w)
        = map (PackageListSetOwner tag q) (new_owners (hub_packages w (tag_id ti)) packages q) \<and>
      filter (adds_or_removes_pkg q) (issued (ensure_tag tag False inh ext packages kw) w) = []"
    if run: "ensure_tag tag False inh ext packages kw w = (Inr res, w')"
      and tag: "hub_tags w tag = Some ti"
      and decl: "q \<in> set (concat (map snd packages))"
      and present: "q \<in> package_name ` set (hub_packages w (tag_id ti))"
  proof -
    have real: "False \<longrightarrow> hub_tags w tag \<noteq> None" by simp
    from ensure_tag_calls [OF run real] show ?thesis
    proof (elim exE conjE)
      fix ti2 res2 w2 res3 w3 cs
      assume cs: "list_all other_call cs"
        and ids: "\<forall>ti. hub_tags w tag = Some ti \<longrightarrow> tag_id ti2 = tag_id ti"
        and k: "hub_packages w3 = hub_packages w"
        and s: "ensure_package_list tag False (tag_id ti2) packages res3 w3 = (Inr res, w')"
        and iss: "issued (ensure_tag tag False inh ext packages kw) w
           = cs @ issued (ensure_tag_repos tag False ext res2) w2
                @ issued (ensure_package_list tag False (tag_id ti2) packages res3) w3"
      from ids tag have tid: "tag_id ti2 = tag_id ti" by simp
      have present3: "q \<in> package_name ` set (hub_packages w3 (tag_id ti2))"
        using present k tid by simp
      note sec = ensure_package_list_reassigns [OF s decl present3]
      show ?thesis
        using sec k tid
        by (simp add: iss other_call_filters [OF cs] repo_section_filters)
    qed
  qed
  have once: "map (PackageListSetOwner tag q) (new_owners (hub_packages w (tag_id ti)) packages q)
      = [PackageListSetOwner tag q ow]"
    if "filter (\<lambda>d. snd d = q) (declared_pairs packages) = [(ow, q)]"
      and "q \<notin> current_owned_of (hub_packages w (tag_id ti)) ow"
    using filter_declared_once [where owned = "current_owned_of (hub_packages w (tag_id ti))"
        and pairs = "declared_pairs packages" and q = q and ow = ow] that
    by (simp add: new_owners_def)
  from untouched silent reassign once show ?thesis by simp
qed

theorem C6_packages_witness:
  "hub_packages (snd (ensure_tag ''t'' False [] None [] kw_ab w_ex)) 1
     = [\<lparr>package_name = ''foo'', owner_name = ''bob''\<rparr>,
        \<lparr>package_name = ''bar'', owner_name = ''bob''\<rparr>] \<and>
   issued (ensure_tag ''t'' False [] None [] kw_ab) w_ex
     = [GetTag ''t'', GetInheritanceData ''t''] \<and>
   fst (ensure_tag ''t'' False [] None [(''alice'', [''foo'']), (''bob'', [''bar''])] kw_ab w_ex)
     = Inr \<lparr>changed = True, stdout_lines = [SetOwner ''foo'' ''alice'']\<rparr> \<and>
   issued (ensure_tag ''t'' False [] None [(''alice'', [''foo'']), (''bob'', [''bar''])] kw_ab) w_ex
     = [GetTag ''t'', GetInheritanceData ''t'', Login, ListPackages 1,
        PackageListSetOwner ''t'' ''foo'' ''alice''] \<and>
   filter (\<lambda>d. snd d = ''foo'') (declared_pairs [(''alice'', [''foo'']), (''bob'', [''bar''])])
     = [(''alice'', ''foo'')] \<and>
   filter (reassigns_pkg ''foo'')
       (issued (ensure_tag ''t'' False [] None [(''alice'', [''foo'']), (''bob'', [''bar''])] kw_ab)
          w_ex)
     = [PackageListSetOwner ''t'' ''foo'' ''alice'']"
  using C6_packages [of "''t''" False "[]" None kw_ab w_ex
      "[(''alice'', [''foo'']), (''bob'', [''bar''])]"
      "\<lparr>changed = True, stdout_lines = [SetOwner ''foo'' ''alice'']\<rparr>"
      "snd (ensure_tag ''t'' False [] None [(''alice'', [''foo'']), (''bob'', [''bar''])] kw_ab w_ex)"
      ti_ab "''foo''" "''alice''"]
  by (simp add: module_defs hub_defs example_defs kw_ab_def declared_pairs_def Let_def)

subsection \<open>C5: the external repos\<close>

text \<open>
  C5, against \<open>exactly one priority edit for that repo\<close>. The tag has the repo
  \<^verbatim>\<open>a\<close> at priority 1 and the list declares it twice, at 5 and at 7. Both entries
  differ from the priority fetched before the loop (line 148), and the run sends two
  edits for \<^verbatim>\<open>a\<close>.
\<close>

theorem C5_external_repos_counterexample:
  "hub_external_repos w_ex ''t'' = [\<lparr>external_repo_name = ''a'', ext_priority = 1\<rparr>] \<and>
   fst (ensure_tag ''t'' False [] (Some [\<lparr>repo = ''a'', repo_priority = 5\<rparr>,
                                         \<lparr>repo = ''a'', repo_priority = 7\<rparr>]) [] kw_ab w_ex)
     = Inr \<lparr>changed = True,
            stdout_lines = [SetRepoPriority ''a'' 5, SetRepoPriority ''a'' 7]\<rparr> \<and>
   filter (edits_repo ''a'')
       (issued (ensure_tag ''t'' False [] (Some [\<lparr>repo = ''a'', repo_priority = 5\<rparr>,
                                                 \<lparr>repo = ''a'', repo_priority = 7\<rparr>]) [] kw_ab) w_ex)
     = [EditTagExternalRepo ''t'' ''a'' 5, EditTagExternalRepo ''t'' ''a'' 7]"
  by (simp add: module_defs hub_defs example_defs kw_ab_def Let_def)

text \<open>
  C5, as the code has it. With \<^verbatim>\<open>external_repos=None\<close> a run of \<^verbatim>\<open>ensure_tag\<close>
  leaves every binding of the hub as it was and sends no call that concerns external
  repos, in either mode and whether it returns or raises. With an empty list, a run
  that returns outside check mode leaves the tag without any binding, and its writes to
  the bindings are one \<^verbatim>\<open>removeExternalRepoFromTag\<close> for each repo name bound before,
  each name once and in no particular order (the loop of line 167 iterates over a set).
  With a list that declares a repo bound on the hub, a run that returns outside check
  mode sends one \<^verbatim>\<open>editTagExternalRepo\<close> for that repo for each declared entry whose
  priority differs from the bound one, in the order of the list, and sends neither an
  add nor a remove for it. So there is exactly one edit, with the declared priority,
  when the repo is declared once with a priority other than the bound one.
\<close>

theorem C5_external_repos:
  "hub_external_repos (snd (ensure_tag tag chk inh None pk kw w)) = hub_external_repos w \<and>
   list_all (\<lambda>c. \<not> repo_call c) (issued (ensure_tag tag chk inh None pk kw) w) \<and>
   (ensure_tag tag False inh (Some []) pk kw w = (Inr res0, w0) \<longrightarrow>
      hub_external_repos w0 tag = [] \<and>
      set (filter (\<lambda>c. repo_call c \<and> mutating c)
             (issued (ensure_tag tag False inh (Some []) pk kw) w))
        = RemoveExternalRepoFromTag tag ` external_repo_name ` set (hub_external_repos w tag) \<and>
      distinct (filter (\<lambda>c. repo_call c \<and> mutating c)
                  (issued (ensure_tag tag False inh (Some []) pk kw) w))) \<and>
   (ensure_tag tag False inh (Some repos) pk kw w = (Inr res, w') \<and> n \<in> repo ` set repos \<and>
    index_repos (hub_external_repos w tag) n = Some cur \<longrightarrow>
      filter (edits_repo n) (issued (ensure_tag tag False inh (Some repos) pk kw) w)
        = map (\<lambda>d. EditTagExternalRepo tag n (repo_priority d))
            (filter (\<lambda>d. repo d = n \<and> repo_priority d \<noteq> ext_priority cur) repos) \<and>
      filter (adds_or_removes_repo n) (issued (ensure_tag tag False inh (Some repos) pk kw) w)
        = [] \<and>
      (filter (\<lambda>d. repo d = n) repos = [r] \<and> repo_priority r \<noteq> ext_priority cur \<longrightarrow>
         filter (edits_repo n) (issued (ensure_tag tag False inh (Some repos) pk kw) w)
           = [EditTagExternalRepo tag n (repo_priority r)]))"
proof -
  have real: "False \<longrightarrow> hub_tags w tag \<noteq> None" by simp
  have untouched: "hub_external_repos (snd (ensure_tag tag chk inh None pk kw w)) = hub_external_repos w"
    by (rule keepsD [OF keeps_repos_ensure_tag_None])
  have silent: "list_all (\<lambda>c. \<not> repo_call c) (issued (ensure_tag tag chk inh None pk kw) w)"
    by (rule issued_sends(2) [OF sends_ensure_tag_None])
  have empty: "hub_external_repos w0 tag = [] \<and>
      set (filter (\<lambda>c. repo_call c \<and> mutating c)
             (issued (ensure_tag tag False inh (Some []) pk kw) w))
        = RemoveExternalRepoFromTag tag ` external_repo_name ` set (hub_external_repos w tag) \<and>
      distinct (filter (\<lambda>c. repo_call c \<and> mutating c)
                  (issued (ensure_tag tag False inh (Some []) pk kw) w))"
    if run: "ensure_tag tag False inh (Some []) pk kw w = (Inr res0, w0)"
    using ensure_tag_calls [OF run real]
  proof (elim exE conjE)
    fix ti2 res2 w2 res3 w3 cs
    assume cs: "list_all other_call cs"
      and k: "hub_external_repos w2 = hub_external_repos w" "set_slot w2 = set_slot w"
        "hub_external_repos w0 = hub_external_repos w3"
      and s: "ensure_tag_repos tag False (Some []) res2 w2 = (Inr res3, w3)"
      and iss: "issued (ensure_tag tag False inh (Some []) pk kw) w
         = cs @ issued (ensure_tag_repos tag False (Some []) res2) w2
              @ issued (ensure_package_list tag False (tag_id ti2) pk res3) w3"
    from ensure_tag_repos_Some(1) [OF s] obtain rr where
      inner: "ensure_external_repos tag False [] w2 = (Inr rr, w3)" ..
    let ?rm = "set_minus (set_slot w) (map external_repo_name (hub_external_repos w tag)) []"
    have "filter (\<lambda>c. repo_call c \<and> mutating c)
        (issued (ensure_tag tag False inh (Some []) pk kw) w)
        = map (RemoveExternalRepoFromTag tag) ?rm"
      using ensure_external_repos_empty(2) [OF inner] k
      by (simp add: iss other_call_filters [OF cs] pkg_section_filters
          ensure_tag_repos_Some(2) [OF s])
    moreover have "distinct (map (RemoveExternalRepoFromTag tag) ?rm)"
      by (simp add: distinct_map inj_on_def)
    moreover have "hub_external_repos w0 tag = []"
      using ensure_external_repos_empty(1) [OF inner] k by simp
    ultimately show ?thesis by auto
  qed
  have edit: "filter (edits_repo n) (issued (ensure_tag tag False inh (Some repos) pk kw) w)
        = map (\<lambda>d. EditTagExternalRepo tag n (repo_priority d))
            (filter (\<lambda>d. repo d = n \<and> repo_priority d \<noteq> ext_priority cur) repos) \<and>
      filter (adds_or_removes_repo n) (issued (ensure_tag tag False inh (Some repos) pk kw) w) = []"
    if run: "ensure_tag tag False inh (Some repos) pk kw w = (Inr res, w')"
      and decl: "n \<in> repo ` set repos"
      and bound: "index_repos (hub_external_repos w tag) n = Some cur"
    using ensure_tag_calls [OF run real]
  proof (elim exE conjE)
    fix ti2 res2 w2 res3 w3 cs
    assume cs: "list_all other_call cs"
      and k: "hub_external_repos w2 = hub_external_repos w" "set_slot w2 = set_slot w"
      and s: "ensure_tag_repos tag False (Some repos) res2 w2 = (Inr res3, w3)"
      and iss: "issued (ensure_tag tag False inh (Some repos) pk kw) w
         = cs @ issued (ensure_tag_repos tag False (Some repos) res2) w2
              @ issued (ensure_package_list tag False (tag_id ti2) pk res3) w3"
    from ensure_tag_repos_Some(1) [OF s] obtain rr where
      inner: "ensure_external_repos tag False repos w2 = (Inr rr, w3)" ..
    have bound2: "index_repos (hub_external_repos w2 tag) n = Some cur" using bound k by simp
    note sec = ensure_external_repos_edits [OF inner decl bound2]
    show ?thesis
      using sec
      by (simp add: iss other_call_filters [OF cs] pkg_section_filters
          ensure_tag_repos_Some(2) [OF s])
  qed
  have once: "map (\<lambda>d. EditTagExternalRepo tag n (repo_priority d))
            (filter (\<lambda>d. repo d = n \<and> repo_priority d \<noteq> ext_priority cur) repos)
      = [EditTagExternalRepo tag n (repo_priority r)]"
    if "filter (\<lambda>d. repo d = n) repos = [r]" "repo_priority r \<noteq> ext_priority cur"
  proof -
    have "filter (\<lambda>d. repo d = n \<and> repo_priority d \<noteq> ext_priority cur) repos
        = filter (\<lambda>d. repo_priority d \<noteq> ext_priority cur) (filter (\<lambda>d. repo d = n) repos)"
      by (simp add: conj_commute)
    with that show ?thesis by simp
  qed
  from untouched silent empty edit once show ?thesis by simp
qed

theorem C5_external_repos_witness:
  "hub_external_repos (snd (ensure_tag ''t'' False [] None [] kw_ab w_ex)) ''t''
     = [\<lparr>external_repo_name = ''a'', ext_priority = 1\<rparr>] \<and>
   issued (ensure_tag ''t'' False [] None [] kw_ab) w_ex
     = [GetTag ''t'', GetInheritanceData ''t''] \<and>
   issued (ensure_tag ''t'' False [] (Some []) [] kw_ab) w_ex
     = [GetTag ''t'', GetInheritanceData ''t'', GetTagExternalRepos ''t'', Login,
        RemoveExternalRepoFromTag ''t'' ''a''] \<and>
   hub_external_repos (snd (ensure_tag ''t'' False [] (Some []) [] kw_ab w_ex)) ''t'' = [] \<and>
   index_repos (hub_external_repos w_ex ''t'') ''a''
     = Some \<lparr>external_repo_name = ''a'', ext_priority = 1\<rparr> \<and>
   fst (ensure_tag ''t'' False [] (Some [\<lparr>repo = ''a'', repo_priority = 5\<rparr>]) [] kw_ab w_ex)
     = Inr \<lparr>changed = True, stdout_lines = [SetRepoPriority ''a'' 5]\<rparr> \<and>
   filter (edits_repo ''a'')
       (issued (ensure_tag ''t'' False [] (Some [\<lparr>repo = ''a'', repo_priority = 5\<rparr>]) [] kw_ab) w_ex)
     = [EditTagExternalRepo ''t'' ''a'' 5] \<and>
   filter (adds_or_removes_repo ''a'')
       (issued (ensure_tag ''t'' False [] (Some [\<lparr>repo = ''a'', repo_priority = 5\<rparr>]) [] kw_ab) w_ex)
     = []"
  using C5_external_repos [of "''t''" False "[]" "[]" kw_ab w_ex
      "\<lparr>changed = True, stdout_lines = [RemovedRepo ''a'' ''t'']\<rparr>"
      "snd (ensure_tag ''t'' False [] (Some []) [] kw_ab w_ex)"
      "[\<lparr>repo = ''a'', repo_priority = 5\<rparr>]"
      "\<lparr>changed = True, stdout_lines = [SetRepoPriority ''a'' 5]\<rparr>"
      "snd (ensure_tag ''t'' False [] (Some [\<lparr>repo = ''a'', repo_priority = 5\<rparr>]) [] kw_ab w_ex)"
      "''a''" "\<lparr>external_repo_name = ''a'', ext_priority = 1\<rparr>"
      "\<lparr>repo = ''a'', repo_priority = 5\<rparr>"]
  by (simp add: module_defs hub_defs example_defs kw_ab_def Let_def)

subsection \<open>C4: a declared parent that does not exist\<close>

text \<open>
  C4, against \<open>for every declared inheritance list containing a parent that does not
  exist, the reconciliation fails\<close>. Neither the tag nor the declared parent exists and
  the run is in check mode: lines 196-200 return "would create tag" before the
  inheritance is looked at, and the run does not fail.
\<close>

theorem C4_unresolved_parent_counterexample:
  "hub_tags w_ex ''new'' = None \<and> hub_tags w_ex ''gone'' = None \<and>
   fst (ensure_tag ''new'' True [\<lparr>parent = ''gone'', inh_priority = 1\<rparr>] None [] kw_ab w_ex)
     = Inr \<lparr>changed = True, stdout_lines = [WouldCreateTag ''new'']\<rparr> \<and>
   issued (ensure_tag ''new'' True [\<lparr>parent = ''gone'', inh_priority = 1\<rparr>] None [] kw_ab) w_ex
     = [GetTag ''new'']"
  by (simp add: module_defs hub_defs example_defs kw_ab_def Let_def)

text \<open>
  C4, as the code has it, in three parts.

  The tag exists and some declared parent does not (\<open>r0\<close> is the first such entry of the
  list). If the hub accepts the attribute edit (when there is one and the run is not in
  check mode), the run raises \<^verbatim>\<open>ValueError("parent tag '...' not found")\<close> for the
  parent of \<open>r0\<close>. The only write it has sent by then is the attribute edit: no
  \<^verbatim>\<open>setInheritanceData\<close> and no later write. The hub's inheritance is as before, and
  the tag carries the edited attributes: the edit is not rolled back. In check mode
  nothing is written and the same exception is raised.

  The tag does not exist, the run is not in check mode and the creation of lines 201-207
  has succeeded. Then the parents are looked up on a hub that has the new tag, so the
  entry that counts (\<open>r1\<close>) is the first whose parent is neither the tag itself nor a
  tag of the hub. The run raises the same \<^verbatim>\<open>ValueError\<close> for it; its only write is the
  \<^verbatim>\<open>createTag\<close>, the hub's inheritance is as before, and the created tag stays.

  The tag does not exist and the run is in check mode: the run returns "would create
  tag" after the one \<^verbatim>\<open>getTag\<close> and raises nothing, whatever the inheritance.
\<close>

theorem C4_unresolved_parent:
  "(hub_tags w tag = Some ti \<and>
    find (\<lambda>r. hub_tags w (parent r) = None) inheritance = Some r0 \<and>
    (\<not> chk \<and> tag_edits ti kwargs \<noteq> no_edits \<longrightarrow>
       hub_refuses w Login = None \<and> hub_refuses w (EditTag2 tag (tag_edits ti kwargs)) = None)
    \<longrightarrow>
      fst (ensure_tag tag chk inheritance external_repos packages kwargs w)
        = Inl (parent_not_found (parent r0)) \<and>
      filter mutating (issued (ensure_tag tag chk inheritance external_repos packages kwargs) w)
        = (if chk \<or> tag_edits ti kwargs = no_edits then []
           else [EditTag2 tag (tag_edits ti kwargs)]) \<and>
      hub_tags (snd (ensure_tag tag chk inheritance external_repos packages kwargs w)) tag
        = Some (if chk \<or> tag_edits ti kwargs = no_edits then ti
                else apply_edits (tag_edits ti kwargs) ti) \<and>
      hub_inheritance (snd (ensure_tag tag chk inheritance external_repos packages kwargs w))
        = hub_inheritance w) \<and>
   (hub_tags w tag = None \<and>
    create_tag tag kwargs \<lparr>changed = False, stdout_lines = []\<rparr> (issue (GetTag tag) w)
      = (Inr created, w1) \<and>
    find (\<lambda>r. parent r \<noteq> tag \<and> hub_tags w (parent r) = None) inheritance = Some r1
    \<longrightarrow>
      fst (ensure_tag tag False inheritance external_repos packages kwargs w)
        = Inl (parent_not_found (parent r1)) \<and>
      (\<exists>p. filter mutating
             (issued (ensure_tag tag False inheritance external_repos packages kwargs) w)
        = [CreateTag tag \<lparr>c_arches = arches kwargs, c_perm = p, c_locked = locked kwargs,
             c_maven_support = maven_support kwargs,
             c_maven_include_all = maven_include_all kwargs, c_extra = extra kwargs\<rparr>]) \<and>
      (\<exists>tj. hub_tags (snd (ensure_tag tag False inheritance external_repos packages kwargs w)) tag
             = Some tj \<and> tag_id tj = fst created) \<and>
      hub_inheritance (snd (ensure_tag tag False inheritance external_repos packages kwargs w))
        = hub_inheritance w) \<and>
   (hub_tags w tag = None \<longrightarrow>
      ensure_tag tag True inheritance external_repos packages kwargs w
        = (Inr \<lparr>changed = True, stdout_lines = [WouldCreateTag tag]\<rparr>, issue (GetTag tag) w))"
  using unresolved_parent_existing [of w tag ti inheritance r0 chk kwargs external_repos packages]
    unresolved_parent_created [of w tag kwargs created w1 inheritance r1 external_repos packages]
    ensure_tag_check_missing [of w tag inheritance external_repos packages kwargs]
  by blast

theorem C4_unresolved_parent_witness:
  "hub_tags w_ex ''t'' = Some ti_ab \<and>
   find (\<lambda>r. hub_tags w_ex (parent r) = None)
     [\<lparr>parent = ''base'', inh_priority = 0\<rparr>, \<lparr>parent = ''gone'', inh_priority = 1\<rparr>]
     = Some \<lparr>parent = ''gone'', inh_priority = 1\<rparr> \<and>
   tag_edits ti_ab kw_locked = no_edits\<lparr>e_locked := Some True\<rparr> \<and>
   fst (ensure_tag ''t'' False
          [\<lparr>parent = ''base'', inh_priority = 0\<rparr>, \<lparr>parent = ''gone'', inh_priority = 1\<rparr>]
          None [] kw_locked w_ex)
     = Inl (parent_not_found ''gone'') \<and>
   filter mutating (issued (ensure_tag ''t'' False
          [\<lparr>parent = ''base'', inh_priority = 0\<rparr>, \<lparr>parent = ''gone'', inh_priority = 1\<rparr>]
          None [] kw_locked) w_ex)
     = [EditTag2 ''t'' (no_edits\<lparr>e_locked := Some True\<rparr>)] \<and>
   hub_tags (snd (ensure_tag ''t'' False
          [\<lparr>parent = ''base'', inh_priority = 0\<rparr>, \<lparr>parent = ''gone'', inh_priority = 1\<rparr>]
          None [] kw_locked w_ex)) ''t''
     = Some (ti_ab\<lparr>locked := True\<rparr>) \<and>
   hub_tags w_ex ''new'' = None \<and>
   fst (create_tag ''new'' kw_locked \<lparr>changed = False, stdout_lines = []\<rparr>
          (issue (GetTag ''new'') w_ex))
     = Inr (3, \<lparr>changed = True, stdout_lines = [CreatedTagId 3]\<rparr>) \<and>
   fst (ensure_tag ''new'' False
          [\<lparr>parent = ''new'', inh_priority = 0\<rparr>, \<lparr>parent = ''gone'', inh_priority = 1\<rparr>]
          None [] kw_locked w_ex)
     = Inl (parent_not_found ''gone'') \<and>
   filter mutating (issued (ensure_tag ''new'' False
          [\<lparr>parent = ''new'', inh_priority = 0\<rparr>, \<lparr>parent = ''gone'', inh_priority = 1\<rparr>]
          None [] kw_locked) w_ex)
     = [CreateTag ''new'' \<lparr>c_arches = None, c_perm = None, c_locked = True,
          c_maven_support = False, c_maven_include_all = False,
          c_extra = [(''a'', EInt 1), (''b'', EInt 2)]\<rparr>] \<and>
   map_option tag_id (hub_tags (snd (ensure_tag ''new'' False
          [\<lparr>parent = ''new'', inh_priority = 0\<rparr>, \<lparr>parent = ''gone'', inh_priority = 1\<rparr>]
          None [] kw_locked w_ex)) ''new'') = Some 3 \<and>
   fst (ensure_tag ''new'' True
          [\<lparr>parent = ''new'', inh_priority = 0\<rparr>, \<lparr>parent = ''gone'', inh_priority = 1\<rparr>]
          None [] kw_locked w_ex)
     = Inr \<lparr>changed = True, stdout_lines = [WouldCreateTag ''new'']\<rparr>"
  using C4_unresolved_parent [of w_ex "''t''" ti_ab
      "[\<lparr>parent = ''base'', inh_priority = 0\<rparr>, \<lparr>parent = ''gone'', inh_priority = 1\<rparr>]"
      "\<lparr>parent = ''gone'', inh_priority = 1\<rparr>" False kw_locked None "[]"]
    C4_unresolved_parent [of w_ex "''new''" ti_ab
      "[\<lparr>parent = ''new'', inh_priority = 0\<rparr>, \<lparr>parent = ''gone'', inh_priority = 1\<rparr>]"
      "\<lparr>parent = ''gone'', inh_priority = 1\<rparr>" False kw_locked None "[]"
      "(3, \<lparr>changed = True, stdout_lines = [CreatedTagId 3]\<rparr>)"
      "snd (create_tag ''new'' kw_locked \<lparr>changed = False, stdout_lines = []\<rparr>
              (issue (GetTag ''new'') w_ex))"
      "\<lparr>parent = ''gone'', inh_priority = 1\<rparr>"]
  by (simp add: module_defs hub_defs example_defs kw_locked_def Let_def)

subsection \<open>C7: the permission cache\<close>

text \<open>
  C7. \<^verbatim>\<open>perm_cache\<close> is empty when the process starts (line 118). A resolution that
  finds the cache empty fetches the catalog once, stores it and answers from it; a
  resolution that finds it non-empty sends nothing and answers from the cache; either
  way a label the mapping does not have raises \<^verbatim>\<open>KeyError\<close>. After a resolution that
  has returned, the cache holds at least that label, so every later resolution sends
  nothing and leaves the cache as it is. Hence \<^verbatim>\<open>getAllPerms\<close> is sent at most once
  by any sequence of resolutions of one process (\<open>resolve_labels\<close>: the labels resolved
  one after the other, an exception ending the sequence, as nothing in the module
  catches a \<^verbatim>\<open>KeyError\<close> and goes on), and at most once by a run of \<^verbatim>\<open>run_module\<close>,
  which reaches \<^verbatim>\<open>get_perm_id\<close> only at line 203. The test of line 123 takes an empty
  cache for one that has not been fetched; over an empty catalog the first resolution
  raises, so no later resolution fetches it again (last part of the witness).
\<close>

theorem C7_permission_cache:
  "count_list (issued (koji_tag_run_module chk name state inh ext pk params) w) GetAllPerms \<le> 1 \<and>
   count_list (issued (resolve_labels labels) w) GetAllPerms \<le> 1 \<and>
   (perm_cache w = [] \<longrightarrow>
      get_perm_id l w =
        (case map_of (py_dict (map (\<lambda>p. (perm_name p, perm_id p)) (hub_perms w))) l of
           None \<Rightarrow> Inl (KeyError l) | Some i \<Rightarrow> Inr i,
         (issue GetAllPerms w)
           \<lparr>perm_cache := py_dict (map (\<lambda>p. (perm_name p, perm_id p)) (hub_perms w))\<rparr>)) \<and>
   (perm_cache w \<noteq> [] \<longrightarrow>
      get_perm_id l w =
        (case map_of (perm_cache w) l of None \<Rightarrow> Inl (KeyError l) | Some i \<Rightarrow> Inr i, w)) \<and>
   (get_perm_id l w = (Inr i, w') \<longrightarrow>
      perm_cache w' \<noteq> [] \<and> issued (get_perm_id l') w' = [] \<and>
      perm_cache (snd (get_perm_id l' w')) = perm_cache w')"
proof -
  have later: "perm_cache w' \<noteq> [] \<and> issued (get_perm_id l') w' = [] \<and>
      perm_cache (snd (get_perm_id l' w')) = perm_cache w'"
    if "get_perm_id l w = (Inr i, w')"
  proof -
    from that have ne: "perm_cache w' \<noteq> []" by (rule get_perm_id_Inr_cache)
    from get_perm_id_cached [OF ne, of l'] ne show ?thesis by (simp add: issued_def)
  qed
  show ?thesis
    using fetches_issued [OF fetches_run_module, of chk name state inh ext pk params w]
      fetches_issued [OF fetches_resolve_labels, of labels w]
      get_perm_id_fetches [of w l] get_perm_id_cached [of w l] later
    by (simp add: Let_def)
qed

theorem C7_permission_cache_witness:
  "perm_cache w_ex = [] \<and> hub_perms w_ex = [\<lparr>perm_name = ''admin'', perm_id = 1\<rparr>] \<and>
   get_perm_id ''admin'' w_ex = (Inr 1, (issue GetAllPerms w_ex)\<lparr>perm_cache := [(''admin'', 1)]\<rparr>) \<and>
   fst (get_perm_id ''build'' w_ex) = Inl (KeyError ''build'') \<and>
   issued (get_perm_id ''admin'') (snd (get_perm_id ''admin'' w_ex)) = [] \<and>
   fst (get_perm_id ''admin'' (snd (get_perm_id ''admin'' w_ex))) = Inr 1 \<and>
   fst (get_perm_id ''build'' (snd (get_perm_id ''admin'' w_ex))) = Inl (KeyError ''build'') \<and>
   issued (resolve_labels [''admin'', ''admin'', ''build'', ''admin'']) w_ex = [GetAllPerms] \<and>
   fst (resolve_labels [''admin'', ''admin'', ''build'', ''admin''] w_ex) = Inl (KeyError ''build'') \<and>
   issued (koji_tag_run_module False ''new'' ''present'' [] None [] (kw_ab\<lparr>perm := Some ''admin''\<rparr>))
       w_ex
     = [GetTag ''new'', Login, GetAllPerms,
        CreateTag ''new'' \<lparr>c_arches = None, c_perm = Some (PermId 1), c_locked = False,
          c_maven_support = False, c_maven_include_all = False,
          c_extra = [(''a'', EInt 1), (''b'', EInt 2)]\<rparr>,
        GetInheritanceData ''new''] \<and>
   hub_perms w_noperms = [] \<and>
   issued (resolve_labels [''admin'', ''build'']) w_noperms = [GetAllPerms] \<and>
   fst (resolve_labels [''admin'', ''build''] w_noperms) = Inl (KeyError ''admin'')"
  using C7_permission_cache [of False "''new''" "''present''" "[]" None "[]"
      "kw_ab\<lparr>perm := Some ''admin''\<rparr>" w_ex "[''admin'', ''admin'', ''build'', ''admin'']"
      "''admin''" 1 "(issue GetAllPerms w_ex)\<lparr>perm_cache := [(''admin'', 1)]\<rparr>" "''admin''"]
    C7_permission_cache [of False "''new''" "''present''" "[]" None "[]"
      "kw_ab\<lparr>perm := Some ''admin''\<rparr>" "snd (get_perm_id ''admin'' w_ex)"
      "[''admin'', ''admin'', ''build'', ''admin'']"
      "''build''" 1 "(issue GetAllPerms w_ex)\<lparr>perm_cache := [(''admin'', 1)]\<rparr>" "''admin''"]
    C7_permission_cache [of False "''new''" "''present''" "[]" None "[]"
      "kw_ab\<lparr>perm := Some ''admin''\<rparr>" w_noperms "[''admin'', ''build'']"
      "''admin''" 1 w_noperms "''admin''"]
  by (simp add: module_defs hub_defs example_defs kw_ab_def resolve_labels_def
      koji_tag_run_module_def w_noperms_def Let_def)

end
